theory Spec2Isabelle
  imports Main "HOL-Library.Word"
begin

section \<open>The cursor library of Wayland: pool allocator, themes, frame selection\<close>

text \<open>
  A shallow embedding of \<^verbatim>\<open>cursor/wayland-cursor.c\<close>. C's \<^verbatim>\<open>unsigned int\<close> and
  \<^verbatim>\<open>uint32_t\<close> are 32-bit words, whose arithmetic wraps around and whose order is the
  unsigned one. A C \<^verbatim>\<open>int\<close> is carried as the same 32 bits and read with \<open>sint\<close>
  wherever its sign matters, so the conversions between \<^verbatim>\<open>int\<close> and
  \<^verbatim>\<open>unsigned int\<close> that the source performs silently are the identity on the bits.

  What the operating system and the other parts of the library do is not in the
  source; it enters the model as the record \<open>os\<close> of outcomes (whether a file
  operation succeeds, which handle a new proxy gets, what the theme loader finds).
  Behaviour that C leaves undefined (a division by zero, an access outside an array or
  a mapping, a signed overflow) is a value of type \<open>fault\<close>.

  Memory: \<^verbatim>\<open>wl_cursor_create_from_xcursor_images\<close> asks \<^verbatim>\<open>malloc\<close> for the cursor and
  for its array of frames and returns \<^verbatim>\<open>NULL\<close> when either is refused, which its caller
  \<^verbatim>\<open>load_callback\<close> tests before it goes on with the load. These two requests can be
  refused in the model: the heap is carried along as the number of such requests made
  so far, and \<open>os\<close> tells which of them are granted. Every other request for memory
  (\<^verbatim>\<open>strdup\<close>, \<^verbatim>\<open>realloc\<close>, the frames themselves, the structures of the theme, of the
  pool and of the built-in cursors) is taken to be granted: a refusal there ends the
  load without a theme, or leaves a null pointer that the source does not test.

  The names are the source's. Where HOL has a constant of the name, a parameter
  \<^verbatim>\<open>size\<close> is \<open>sz\<close> and \<^verbatim>\<open>image\<close> is \<open>img\<close>, and a field that two structures share
  is written with the structure in front where it is not the cursor's.
\<close>

type_synonym uint32 = "32 word"
type_synonym c_int = "32 word"
type_synonym byte = "8 word"

datatype fault = Division_by_zero | Out_of_bounds | Signed_overflow

subsection \<open>What the theme loader and the built-in table supply\<close>

text \<open>The \<^verbatim>\<open>XcursorImage\<close> and \<^verbatim>\<open>XcursorImages\<close> of \<^verbatim>\<open>xcursor.h\<close>; \<^verbatim>\<open>nimage\<close> is the
  length of \<open>images\<close>, and the pixels are kept as the bytes that \<^verbatim>\<open>memcpy\<close> reads.\<close>

record XcursorImage =
  width :: uint32
  height :: uint32
  xhot :: uint32
  yhot :: uint32
  delay :: uint32
  pixels :: "byte list"

record XcursorImages =
  name :: string
  images :: "XcursorImage list"

text \<open>An entry of the table \<^verbatim>\<open>cursor_metadata\<close> of \<^verbatim>\<open>cursor-data.h\<close>; \<open>offset\<close> counts
  32-bit pixels from the start of \<^verbatim>\<open>cursor_data\<close>.\<close>

record cursor_metadata =
  name :: string
  width :: c_int
  height :: c_int
  hotspot_x :: c_int
  hotspot_y :: c_int
  offset :: nat

subsection \<open>The compositor's side of a pool, and the file behind it\<close>

type_synonym wl_buffer = nat

text \<open>The requests marshalled on a \<^verbatim>\<open>wl_shm_pool\<close> proxy. The proxy is modelled by
  the list of the requests sent on it so far.\<close>

datatype wl_request =
  Resize int
| Create_buffer int uint32 uint32 uint32 nat

type_synonym wl_shm_pool = "wl_request list"

definition WL_SHM_FORMAT_ARGB8888 :: nat where
  "WL_SHM_FORMAT_ARGB8888 = 0"

text \<open>The anonymous file a descriptor refers to: its length and its bytes.\<close>

record anon_file =
  len :: nat
  bytes :: "nat \<Rightarrow> byte"

text \<open>The value of \<^verbatim>\<open>pool->data\<close>: \<^verbatim>\<open>MAP_FAILED\<close>, or a shared mapping of the first
  \<open>n\<close> bytes of the file. The mapping is shared, so its contents are the file's.\<close>

datatype mapped_region = MAP_FAILED | Mapped nat

text \<open>The environment of a run: whether \<^verbatim>\<open>os_create_anonymous_file\<close>, \<^verbatim>\<open>ftruncate\<close> and
  \<^verbatim>\<open>mmap\<close> succeed for a given length, whether \<^verbatim>\<open>malloc\<close> grants the request that
  comes after the given number of earlier ones, the handle of the proxy created after
  the given requests, the cursors that the theme loader discovers for a theme name and
  a size, and the built-in table of \<^verbatim>\<open>cursor-data.h\<close> with its pixel bytes.\<close>

record os =
  create_ok :: "int \<Rightarrow> bool"
  truncate_ok :: "int \<Rightarrow> bool"
  mmap_ok :: "nat \<Rightarrow> bool"
  malloc_ok :: "nat \<Rightarrow> bool"
  new_id :: "wl_request list \<Rightarrow> wl_buffer"
  xcursor_theme :: "string \<Rightarrow> c_int \<Rightarrow> XcursorImages list"
  cursor_metadata :: "cursor_metadata list"
  cursor_data :: "byte list"

text \<open>Modelled from the spec: \<^verbatim>\<open>os_create_anonymous_file\<close> of \<^verbatim>\<open>os-compatibility.c\<close>,
  which is not among the sources. It yields a descriptor of a fresh file of the asked
  length, or a negative value.\<close>

definition os_create_anonymous_file :: "os \<Rightarrow> int \<Rightarrow> anon_file option" where
  "os_create_anonymous_file env n =
     (if n < 0 \<or> \<not> create_ok env n then None
      else Some \<lparr>len = nat n, bytes = (\<lambda>i. 0)\<rparr>)"

text \<open>POSIX \<^verbatim>\<open>ftruncate\<close>: a negative length is refused; otherwise the file gets the
  new length, keeps the bytes below both lengths and reads as zero above.\<close>

definition ftruncate :: "os \<Rightarrow> anon_file \<Rightarrow> int \<Rightarrow> anon_file option" where
  "ftruncate env f n =
     (if n < 0 \<or> \<not> truncate_ok env n then None
      else Some \<lparr>len = nat n,
                 bytes = (\<lambda>i. if i < len f \<and> i < nat n then bytes f i else 0)\<rparr>)"

definition mmap :: "os \<Rightarrow> nat \<Rightarrow> mapped_region" where
  "mmap env n = (if mmap_ok env n then Mapped n else MAP_FAILED)"

text \<open>The heap is the number of requests made to \<^verbatim>\<open>malloc\<close> so far. A request tells
  whether the pointer returned is a block of memory (\<open>False\<close> for \<^verbatim>\<open>NULL\<close>) and leaves
  the heap one request older.\<close>

type_synonym heap = nat

definition malloc :: "os \<Rightarrow> heap \<Rightarrow> bool \<times> heap" where
  "malloc env h = (malloc_ok env h, Suc h)"

subsection \<open>The pool allocator\<close>

text \<open>\<^verbatim>\<open>struct shm_pool\<close>. The field \<^verbatim>\<open>size\<close> is \<open>size_p\<close> here, and \<open>fd\<close> holds the file
  the descriptor refers to.\<close>

record shm_pool =
  pool :: wl_shm_pool
  fd :: anon_file
  size_p :: uint32
  used :: uint32
  data :: mapped_region

definition shm_pool_create :: "os \<Rightarrow> c_int \<Rightarrow> shm_pool option" where
  "shm_pool_create env sz =
     (case os_create_anonymous_file env (sint sz) of
        None \<Rightarrow> None
      | Some f \<Rightarrow>
          (case mmap env (nat (sint sz)) of
             MAP_FAILED \<Rightarrow> None
           | Mapped n \<Rightarrow>
               Some \<lparr>pool = [], fd = f, size_p = sz, used = 0, data = Mapped n\<rparr>))"

text \<open>The result is the C truth value: \<open>False\<close> for \<^verbatim>\<open>return 0\<close>. The result of
  \<^verbatim>\<open>mmap\<close> is stored unchecked, as in the source.\<close>

definition shm_pool_resize :: "os \<Rightarrow> shm_pool \<Rightarrow> c_int \<Rightarrow> bool \<times> shm_pool" where
  "shm_pool_resize env p sz =
     (case ftruncate env (fd p) (sint sz) of
        None \<Rightarrow> (False, p)
      | Some f \<Rightarrow>
          (True, p\<lparr>pool := pool p @ [Resize (sint sz)],
                   fd := f,
                   data := mmap env (nat (sint sz)),
                   size_p := sz\<rparr>))"

definition shm_pool_allocate :: "os \<Rightarrow> shm_pool \<Rightarrow> c_int \<Rightarrow> c_int \<times> shm_pool" where
  "shm_pool_allocate env p sz =
     (let (ok, p1) = (if used p + sz > size_p p
                      then shm_pool_resize env p (2 * size_p p + sz)
                      else (True, p))
      in if \<not> ok then (- 1, p1)
         else (used p1, p1\<lparr>used := used p1 + sz\<rparr>))"

text \<open>\<^verbatim>\<open>memcpy(pool->data + offset, src, size)\<close>: \<open>size\<close> is converted to \<^verbatim>\<open>size_t\<close>, so
  a negative one is larger than every mapping; a copy that leaves the mapping, or
  reads past the end of the source, is undefined.\<close>

definition memcpy_pool :: "shm_pool \<Rightarrow> c_int \<Rightarrow> byte list \<Rightarrow> c_int \<Rightarrow> fault + shm_pool" where
  "memcpy_pool p off src sz =
     (case data p of
        MAP_FAILED \<Rightarrow> Inl Out_of_bounds
      | Mapped m \<Rightarrow>
          if sint off < 0 \<or> sint sz < 0 \<or> m < nat (sint off) + nat (sint sz)
             \<or> length src < nat (sint sz)
          then Inl Out_of_bounds
          else Inr (p\<lparr>fd := (fd p)\<lparr>bytes :=
                 (\<lambda>i. if nat (sint off) \<le> i \<and> i < nat (sint off) + nat (sint sz)
                      then src ! (i - nat (sint off)) else bytes (fd p) i)\<rparr>\<rparr>))"

subsection \<open>Images, cursors and themes\<close>

text \<open>\<^verbatim>\<open>struct cursor_image\<close> with its \<^verbatim>\<open>wl_cursor_image\<close> inlined. The back pointer
  \<^verbatim>\<open>theme\<close> is not a field: the functions that follow it take the theme as an
  argument. A \<^verbatim>\<open>NULL\<close> buffer is \<open>None\<close>.\<close>

record cursor_image =
  width :: uint32
  height :: uint32
  hotspot_x :: uint32
  hotspot_y :: uint32
  delay :: uint32
  buffer :: "wl_buffer option"
  offset :: c_int

text \<open>\<^verbatim>\<open>struct cursor\<close> with its \<^verbatim>\<open>wl_cursor\<close> inlined; \<^verbatim>\<open>image_count\<close> is the length
  of \<open>images\<close>.\<close>

record cursor =
  name :: string
  images :: "cursor_image list"
  total_delay :: uint32

definition image_count :: "cursor \<Rightarrow> nat" where
  "image_count c = length (images c)"

text \<open>\<^verbatim>\<open>struct wl_cursor_theme\<close>; \<^verbatim>\<open>cursor_count\<close> is the length of \<open>cursors\<close>, the
  fields \<^verbatim>\<open>pool\<close>, \<^verbatim>\<open>name\<close> and \<^verbatim>\<open>size\<close> carry the suffix \<open>_t\<close>.\<close>

record wl_cursor_theme =
  cursors :: "cursor list"
  pool_t :: shm_pool
  name_t :: string
  size_t :: c_int

definition cursor_count :: "wl_cursor_theme \<Rightarrow> nat" where
  "cursor_count theme = length (cursors theme)"

text \<open>Modelled from the spec: the request \<^verbatim>\<open>wl_shm_pool_create_buffer\<close> of the
  generated protocol header, which is not among the sources. It makes a proxy for the
  new buffer and sends one creation request on the pool's proxy. The handle of the new
  proxy is chosen on the client's side; which one it is may depend on everything sent
  so far.\<close>

definition wl_shm_pool_create_buffer ::
  "os \<Rightarrow> wl_shm_pool \<Rightarrow> c_int \<Rightarrow> uint32 \<Rightarrow> uint32 \<Rightarrow> uint32 \<Rightarrow> nat
   \<Rightarrow> wl_buffer \<times> wl_shm_pool" where
  "wl_shm_pool_create_buffer env proxy off w h stride format =
     (let sent = proxy @ [Create_buffer (sint off) w h stride format]
      in (new_id env sent, sent))"

definition wl_cursor_image_get_buffer ::
  "os \<Rightarrow> wl_cursor_theme \<Rightarrow> cursor_image
   \<Rightarrow> wl_buffer option \<times> cursor_image \<times> wl_cursor_theme" where
  "wl_cursor_image_get_buffer env theme img =
     (if buffer img = None then
        (let (b, proxy) =
               wl_shm_pool_create_buffer env (pool (pool_t theme)) (offset img)
                 (width img) (height img) (width img * 4) WL_SHM_FORMAT_ARGB8888
         in (Some b, img\<lparr>buffer := Some b\<rparr>,
             theme\<lparr>pool_t := (pool_t theme)\<lparr>pool := proxy\<rparr>\<rparr>))
      else (buffer img, img, theme))"

text \<open>\<^verbatim>\<open>wl_cursor_create_from_data\<close>: the result of \<^verbatim>\<open>shm_pool_allocate\<close> is used as
  it comes.\<close>

definition wl_cursor_create_from_data ::
  "os \<Rightarrow> cursor_metadata \<Rightarrow> wl_cursor_theme \<Rightarrow> fault + cursor \<times> wl_cursor_theme" where
  "wl_cursor_create_from_data env metadata theme =
     (let sz = cursor_metadata.width metadata * cursor_metadata.height metadata * 4;
          (off, p) = shm_pool_allocate env (pool_t theme) sz;
          img = \<lparr>width = cursor_metadata.width metadata,
                   height = cursor_metadata.height metadata,
                   hotspot_x = cursor_metadata.hotspot_x metadata,
                   hotspot_y = cursor_metadata.hotspot_y metadata,
                   delay = 0, buffer = None, offset = off\<rparr>
      in case memcpy_pool p off
                (drop (4 * cursor_metadata.offset metadata) (cursor_data env)) sz of
           Inl e \<Rightarrow> Inl e
         | Inr p' \<Rightarrow>
             Inr (\<lparr>name = cursor_metadata.name metadata, images = [img],
                   total_delay = 0\<rparr>,
                  theme\<lparr>pool_t := p'\<rparr>))"

text \<open>The loop of \<^verbatim>\<open>load_default_theme\<close>.\<close>

fun default_cursors ::
  "os \<Rightarrow> cursor_metadata list \<Rightarrow> wl_cursor_theme \<Rightarrow> fault + wl_cursor_theme" where
  "default_cursors env [] theme = Inr theme"
| "default_cursors env (m # ms) theme =
     (case wl_cursor_create_from_data env m theme of
        Inl e \<Rightarrow> Inl e
      | Inr (c, theme') \<Rightarrow>
          default_cursors env ms (theme'\<lparr>cursors := cursors theme' @ [c]\<rparr>))"

definition load_default_theme :: "os \<Rightarrow> wl_cursor_theme \<Rightarrow> fault + wl_cursor_theme" where
  "load_default_theme env theme =
     default_cursors env (cursor_metadata env)
       (theme\<lparr>name_t := ''default'', cursors := []\<rparr>)"

text \<open>The loop of \<^verbatim>\<open>wl_cursor_create_from_xcursor_images\<close> over the frames still to
  come. Each frame is appended to the cursor, its delay added to \<open>total_delay\<close>, its
  pixels copied to the offset that \<^verbatim>\<open>shm_pool_allocate\<close> returned, whatever that
  is.\<close>

fun create_images ::
  "os \<Rightarrow> XcursorImage list \<Rightarrow> cursor \<Rightarrow> wl_cursor_theme
   \<Rightarrow> fault + cursor \<times> wl_cursor_theme" where
  "create_images env [] c theme = Inr (c, theme)"
| "create_images env (xi # xis) c theme =
     (let sz = XcursorImage.width xi * XcursorImage.height xi * 4;
          (off, p) = shm_pool_allocate env (pool_t theme) sz;
          img = \<lparr>width = XcursorImage.width xi, height = XcursorImage.height xi,
                   hotspot_x = xhot xi, hotspot_y = yhot xi,
                   delay = XcursorImage.delay xi, buffer = None, offset = off\<rparr>
      in case memcpy_pool p off (pixels xi) sz of
           Inl e \<Rightarrow> Inl e
         | Inr p' \<Rightarrow>
             create_images env xis
               (c\<lparr>images := images c @ [img],
                  total_delay := total_delay c + delay img\<rparr>)
               (theme\<lparr>pool_t := p'\<rparr>))"

text \<open>\<^verbatim>\<open>wl_cursor_create_from_xcursor_images\<close>: \<open>None\<close> is the \<^verbatim>\<open>NULL\<close> that it returns
  when \<^verbatim>\<open>malloc\<close> refuses the cursor or the array of its frames; nothing has been put
  into the pool by then.\<close>

definition wl_cursor_create_from_xcursor_images ::
  "os \<Rightarrow> XcursorImages \<Rightarrow> wl_cursor_theme \<Rightarrow> heap
   \<Rightarrow> fault + cursor option \<times> wl_cursor_theme \<times> heap" where
  "wl_cursor_create_from_xcursor_images env ximages theme h =
     (let (cursor_p, h1) = malloc env h
      in if \<not> cursor_p then Inr (None, theme, h1)
         else
           (let (images_p, h2) = malloc env h1
            in if \<not> images_p then Inr (None, theme, h2)
               else
                 (case create_images env (XcursorImages.images ximages)
                         \<lparr>name = XcursorImages.name ximages, images = [],
                          total_delay = 0\<rparr> theme of
                    Inl e \<Rightarrow> Inl e
                  | Inr (c, theme') \<Rightarrow> Inr (Some c, theme', h2))))"

text \<open>The scan of \<^verbatim>\<open>wl_cursor_theme_get_cursor\<close> returns the first cursor whose name
  \<^verbatim>\<open>strcmp\<close> finds equal, \<open>None\<close> for \<^verbatim>\<open>NULL\<close>.\<close>

definition wl_cursor_theme_get_cursor :: "wl_cursor_theme \<Rightarrow> string \<Rightarrow> cursor option" where
  "wl_cursor_theme_get_cursor theme nm = find (\<lambda>c. nm = name c) (cursors theme)"

text \<open>\<^verbatim>\<open>load_callback\<close>: a report whose name the theme already has is dropped; a
  cursor that the constructor returns is linked at the end of the theme's array; after
  a \<^verbatim>\<open>NULL\<close> the theme stays as it is.\<close>

definition load_callback ::
  "os \<Rightarrow> XcursorImages \<Rightarrow> wl_cursor_theme \<Rightarrow> heap \<Rightarrow> fault + wl_cursor_theme \<times> heap" where
  "load_callback env ximages theme h =
     (case wl_cursor_theme_get_cursor theme (XcursorImages.name ximages) of
        Some c \<Rightarrow> Inr (theme, h)
      | None \<Rightarrow>
          (case wl_cursor_create_from_xcursor_images env ximages theme h of
             Inl e \<Rightarrow> Inl e
           | Inr (None, theme', h') \<Rightarrow> Inr (theme', h')
           | Inr (Some c, theme', h') \<Rightarrow>
               Inr (theme'\<lparr>cursors := cursors theme' @ [c]\<rparr>, h')))"

text \<open>Modelled from the spec: \<^verbatim>\<open>xcursor_load_theme\<close> of \<^verbatim>\<open>xcursor.c\<close>, which is not among
  the sources. It calls the callback once for each cursor it discovers, in order.\<close>

fun load_cursors ::
  "os \<Rightarrow> XcursorImages list \<Rightarrow> wl_cursor_theme \<Rightarrow> heap \<Rightarrow> fault + wl_cursor_theme \<times> heap" where
  "load_cursors env [] theme h = Inr (theme, h)"
| "load_cursors env (x # xs) theme h =
     (case load_callback env x theme h of
        Inl e \<Rightarrow> Inl e
      | Inr (theme', h') \<Rightarrow> load_cursors env xs theme' h')"

definition xcursor_load_theme ::
  "os \<Rightarrow> string \<Rightarrow> c_int \<Rightarrow> wl_cursor_theme \<Rightarrow> heap \<Rightarrow> fault + wl_cursor_theme \<times> heap" where
  "xcursor_load_theme env nm sz theme h = load_cursors env (xcursor_theme env nm sz) theme h"

text \<open>Whether \<^verbatim>\<open>size * size * 4\<close> stays within \<^verbatim>\<open>int\<close>.\<close>

definition in_int_range :: "int \<Rightarrow> bool" where
  "in_int_range k = (- (2 ^ 31) \<le> k \<and> k < 2 ^ 31)"

text \<open>\<^verbatim>\<open>wl_cursor_theme_load\<close>. The requests for memory are counted from the start of
  the load.\<close>

definition wl_cursor_theme_load ::
  "os \<Rightarrow> string option \<Rightarrow> c_int \<Rightarrow> fault + wl_cursor_theme option" where
  "wl_cursor_theme_load env nm sz =
     (let nm' = (case nm of None \<Rightarrow> ''default'' | Some n \<Rightarrow> n)
      in if in_int_range (sint sz * sint sz) \<and> in_int_range (sint sz * sint sz * 4)
         then
           (case shm_pool_create env (sz * sz * 4) of
              None \<Rightarrow> Inr None
            | Some p \<Rightarrow>
                (case xcursor_load_theme env nm' sz
                        \<lparr>cursors = [], pool_t = p, name_t = nm', size_t = sz\<rparr> 0 of
                   Inl e \<Rightarrow> Inl e
                 | Inr (theme, h) \<Rightarrow>
                     if cursor_count theme = 0
                     then (case load_default_theme env theme of
                             Inl e \<Rightarrow> Inl e
                           | Inr theme' \<Rightarrow> Inr (Some theme'))
                     else Inr (Some theme)))
         else Inl Signed_overflow)"

subsection \<open>The frame selector\<close>

text \<open>The loop of \<^verbatim>\<open>wl_cursor_frame\<close>: \<open>t\<close> and the delays are unsigned, so
  \<^verbatim>\<open>t - delay < t\<close> is a comparison after wrap-around. Reading \<^verbatim>\<open>images[i]\<close> past the
  end of the array is a fault.\<close>

function frame_loop :: "cursor_image list \<Rightarrow> uint32 \<Rightarrow> nat \<Rightarrow> fault + nat" where
  "frame_loop imgs t i =
     (if length imgs \<le> i then Inl Out_of_bounds
      else if t - delay (imgs ! i) < t
           then frame_loop imgs (t - delay (imgs ! i)) (i + 1)
           else Inr i)"
  by pat_completeness auto
termination
  by (relation "measure (\<lambda>(imgs, t, i). length imgs - i)") auto

definition wl_cursor_frame :: "cursor \<Rightarrow> uint32 \<Rightarrow> fault + nat" where
  "wl_cursor_frame c time =
     (if image_count c = 1 then Inr 0
      else if total_delay c = 0 then Inl Division_by_zero
      else frame_loop (images c) (time mod total_delay c) 0)"

text \<open>The frame selector as the specification words it, for comparison: with \<open>cum\<close>
  starting at 0, the first frame \<open>i\<close> with \<open>t < cum + delay\<^sub>i\<close> is returned, and
  \<open>cum\<close> grows by the delay of every frame passed over. The numbers are unbounded.\<close>

fun spec_frame_from :: "nat list \<Rightarrow> nat \<Rightarrow> nat \<Rightarrow> nat \<Rightarrow> nat option" where
  "spec_frame_from [] t cum i = None"
| "spec_frame_from (d # ds) t cum i =
     (if t < cum + d then Some i else spec_frame_from ds t (cum + d) (i + 1))"

definition spec_frame_at :: "cursor \<Rightarrow> uint32 \<Rightarrow> nat option" where
  "spec_frame_at c elapsed_ms =
     spec_frame_from (map (\<lambda>img. unat (delay img)) (images c))
       (unat elapsed_ms mod unat (total_delay c)) 0 0"

subsection \<open>Runs of allocations\<close>

text \<open>A sequence of allocations on a pool, each of which must succeed: the offsets
  returned, each with the pool as the allocation left it.\<close>

fun allocate_all :: "os \<Rightarrow> shm_pool \<Rightarrow> c_int list \<Rightarrow> (c_int \<times> shm_pool) list option" where
  "allocate_all env p [] = Some []"
| "allocate_all env p (s # ss) =
     (let (off, p') = shm_pool_allocate env p s
      in if off = - 1 then None
         else map_option ((#) (off, p')) (allocate_all env p' ss))"

text \<open>Whether every growth that a sequence of sizes causes, starting from capacity
  \<open>cap\<close> with \<open>u\<close> bytes used, asks for a capacity \<open>2 * cap + s\<close> that an \<^verbatim>\<open>int\<close> can
  hold.\<close>

fun growth_fits :: "nat \<Rightarrow> nat \<Rightarrow> nat list \<Rightarrow> bool" where
  "growth_fits cap u [] = True"
| "growth_fits cap u (s # ss) =
     (if cap < u + s
      then 2 * cap + s < 2147483648 \<and> growth_fits (2 * cap + s) (u + s) ss
      else growth_fits cap (u + s) ss)"

text \<open>\<open>n\<close> successive calls of \<^verbatim>\<open>wl_cursor_image_get_buffer\<close> on one image: the
  handles returned, and the image and the theme after the last call.\<close>

fun get_buffer_calls ::
  "os \<Rightarrow> nat \<Rightarrow> wl_cursor_theme \<Rightarrow> cursor_image
   \<Rightarrow> wl_buffer option list \<times> cursor_image \<times> wl_cursor_theme" where
  "get_buffer_calls env 0 theme img = ([], img, theme)"
| "get_buffer_calls env (Suc n) theme img =
     (let (b, img', theme') = wl_cursor_image_get_buffer env theme img;
          (bs, img'', theme'') = get_buffer_calls env n theme' img'
      in (b # bs, img'', theme''))"

subsection \<open>What a pool holds\<close>

text \<open>The allocated bytes lie inside the file, and so does the mapping.\<close>

definition pool_inv :: "shm_pool \<Rightarrow> bool" where
  "pool_inv p \<longleftrightarrow>
     unat (used p) \<le> len (fd p)
     \<and> (case data p of MAP_FAILED \<Rightarrow> True | Mapped m \<Rightarrow> m \<le> len (fd p))"

text \<open>The range of an image lies in the allocated part of the pool and holds the first
  \<open>width * height * 4\<close> bytes of \<open>src\<close>.\<close>

definition stored :: "shm_pool \<Rightarrow> cursor_image \<Rightarrow> byte list \<Rightarrow> bool" where
  "stored p img src \<longleftrightarrow>
     nat (sint (offset img)) + nat (sint (width img * height img * 4)) \<le> unat (used p)
     \<and> (\<forall>j < nat (sint (width img * height img * 4)).
           bytes (fd p) (nat (sint (offset img)) + j) = src ! j)"

text \<open>A later state of a pool: more is allocated, and what was allocated is unchanged.\<close>

definition extends :: "shm_pool \<Rightarrow> shm_pool \<Rightarrow> bool" where
  "extends p p' \<longleftrightarrow>
     unat (used p) \<le> unat (used p')
     \<and> (\<forall>i < unat (used p). bytes (fd p') i = bytes (fd p) i)"

subsection \<open>Concrete inputs of the examples\<close>

text \<open>An environment in which every system call succeeds, every request for memory is
  granted and new proxies are numbered by the requests sent; no theme is installed and
  the built-in table is empty.\<close>

definition env_ok :: os where
  "env_ok = \<lparr>create_ok = (\<lambda>n. True), truncate_ok = (\<lambda>n. True), mmap_ok = (\<lambda>n. True),
             malloc_ok = (\<lambda>k. True), new_id = (\<lambda>sent. length sent),
             xcursor_theme = (\<lambda>nm sz. []), cursor_metadata = [], cursor_data = []\<rparr>"

text \<open>The same under a file size limit: \<^verbatim>\<open>ftruncate\<close> fails beyond \<open>n\<close> bytes.\<close>

definition env_limit :: "int \<Rightarrow> os" where
  "env_limit n = env_ok\<lparr>truncate_ok := (\<lambda>k. k \<le> n)\<rparr>"

text \<open>The pool that \<^verbatim>\<open>shm_pool_create\<close> returns in \<open>env_ok\<close>.\<close>

definition fresh_pool :: "c_int \<Rightarrow> shm_pool" where
  "fresh_pool n = \<lparr>pool = [], fd = \<lparr>len = nat (sint n), bytes = (\<lambda>i. 0)\<rparr>, size_p = n,
                   used = 0, data = Mapped (nat (sint n))\<rparr>"

text \<open>A 1 by 1 frame with the given delay, not yet allocated.\<close>

definition frame :: "uint32 \<Rightarrow> cursor_image" where
  "frame d = \<lparr>width = 1, height = 1, hotspot_x = 0, hotspot_y = 0, delay = d,
              buffer = None, offset = 0\<rparr>"

text \<open>A pool of 16 bytes whose first 12 are allocated and written.\<close>

definition small_pool :: shm_pool where
  "small_pool = (fresh_pool 16)\<lparr>used := 12,
                  fd := \<lparr>len = 16, bytes = (\<lambda>i. if i < 12 then 255 else 0)\<rparr>\<rparr>"

text \<open>A theme around that pool, with no cursor yet.\<close>

definition example_theme :: wl_cursor_theme where
  "example_theme = \<lparr>cursors = [], pool_t = small_pool, name_t = ''default'', size_t = 2\<rparr>"

text \<open>A frame as the loader supplies it: \<open>w\<close> by \<open>h\<close> opaque white pixels.\<close>

definition xframe :: "uint32 \<Rightarrow> uint32 \<Rightarrow> uint32 \<Rightarrow> XcursorImage" where
  "xframe w h d = \<lparr>XcursorImage.width = w, height = h, xhot = 0, yhot = 0, delay = d,
                  pixels = replicate (unat w * unat h * 4) 255\<rparr>"

text \<open>The environment \<open>env_ok\<close> with an installed theme of the given cursors.\<close>

definition env_theme :: "XcursorImages list \<Rightarrow> os" where
  "env_theme reports = env_ok\<lparr>xcursor_theme := (\<lambda>nm sz. reports)\<rparr>"

text \<open>The same when \<^verbatim>\<open>malloc\<close> refuses the request number \<open>k\<close>, counted from 0, and
  grants the others.\<close>

definition env_refusing :: "XcursorImages list \<Rightarrow> nat \<Rightarrow> os" where
  "env_refusing reports k = (env_theme reports)\<lparr>malloc_ok := (\<lambda>i. i \<noteq> k)\<rparr>"

section \<open>Frame selection\<close>

declare frame_loop.simps [simp del]

text \<open>The definitions that a theme load on a concrete input unfolds.\<close>

lemmas load_defs = wl_cursor_theme_load_def xcursor_load_theme_def load_callback_def
  wl_cursor_theme_get_cursor_def wl_cursor_create_from_xcursor_images_def malloc_def
  shm_pool_create_def os_create_anonymous_file_def mmap_def
  shm_pool_allocate_def shm_pool_resize_def ftruncate_def memcpy_pool_def
  in_int_range_def cursor_count_def load_default_theme_def
  env_theme_def env_ok_def xframe_def env_refusing_def

text \<open>The loop test \<^verbatim>\<open>t - delay < t\<close> on unsigned 32-bit numbers holds exactly when
  the delay is not zero and does not exceed \<open>t\<close>.\<close>

lemma wrapped_test_iff: "((t :: uint32) - d < t) \<longleftrightarrow> (d \<noteq> 0 \<and> d \<le> t)"
proof -
  have t: "unat t < 2 ^ 32" using unsigned_less [of t, where 'a = nat] by simp
  have d: "unat d < 2 ^ 32" using unsigned_less [of d, where 'a = nat] by simp
  have z: "d \<noteq> 0 \<longleftrightarrow> 0 < unat d" by (simp add: unat_gt_0)
  have "unat (t - d) < unat t \<longleftrightarrow> 0 < unat d \<and> unat d \<le> unat t"
    using t d by (simp add: unat_sub_if') arith
  then show ?thesis
    by (simp add: word_less_nat_alt word_le_nat_alt z)
qed

lemma unat_sum_list_le: "unat (sum_list (ws :: uint32 list)) \<le> sum_list (map unat ws)"
proof (induction ws)
  case Nil
  show ?case by simp
next
  case (Cons w ws)
  have "unat (w + sum_list ws) \<le> unat w + unat (sum_list ws)"
    by (simp add: unat_word_ariths)
  with Cons show ?case by simp
qed

text \<open>As long as \<open>t\<close> is below the sum of the delays from frame \<open>i\<close> on, the loop stops
  at a frame of the array.\<close>

lemma frame_loop_in_bounds:
  "unat t < sum_list (map (\<lambda>img. unat (delay img)) (drop i imgs)) \<Longrightarrow>
   \<exists>j. frame_loop imgs t i = Inr j \<and> i \<le> j \<and> j < length imgs"
proof (induction imgs t i rule: frame_loop.induct)
  case (1 imgs t i)
  have len: "i < length imgs"
  proof (rule ccontr)
    assume "\<not> i < length imgs"
    then have "drop i imgs = []" by simp
    with "1.prems" show False by simp
  qed
  then have split: "drop i imgs = imgs ! i # drop (i + 1) imgs"
    by (simp add: Cons_nth_drop_Suc)
  show ?case
  proof (cases "t - delay (imgs ! i) < t")
    case True
    then have le: "delay (imgs ! i) \<le> t" by (simp add: wrapped_test_iff)
    then have "unat (t - delay (imgs ! i)) = unat t - unat (delay (imgs ! i))"
      by (simp add: unat_sub)
    moreover have "unat (delay (imgs ! i)) \<le> unat t"
      using le by (simp add: word_le_nat_alt)
    ultimately have "unat (t - delay (imgs ! i))
        < sum_list (map (\<lambda>img. unat (delay img)) (drop (i + 1) imgs))"
      using "1.prems" split by simp
    with "1.IH" len True obtain j where
      "frame_loop imgs (t - delay (imgs ! i)) (i + 1) = Inr j" "i + 1 \<le> j" "j < length imgs"
      by auto
    with len True show ?thesis
      by (subst frame_loop.simps) simp
  next
    case False
    with len show ?thesis
      by (subst frame_loop.simps) simp
  qed
qed

text \<open>When \<open>total_delay\<close> is the 32-bit sum of the delays, the time \<open>t\<close> the loop
  starts with is below the sum of all delays.\<close>

lemma frame_in_bounds_of_sum:
  assumes sum: "total_delay c = sum_list (map delay (images c))"
    and one: "1 \<le> image_count c"
    and pos: "1 < image_count c \<longrightarrow> 0 < total_delay c"
  shows "\<exists>i. wl_cursor_frame c time = Inr i \<and> i < image_count c"
proof (cases "image_count c = 1")
  case True
  then show ?thesis by (simp add: wl_cursor_frame_def)
next
  case False
  with one pos have td: "0 < total_delay c" by simp
  then have "time mod total_delay c < total_delay c"
    by (rule word_mod_less_divisor)
  then have "unat (time mod total_delay c) < unat (total_delay c)"
    by (simp add: word_less_nat_alt)
  also have "\<dots> \<le> sum_list (map unat (map delay (images c)))"
    unfolding sum by (rule unat_sum_list_le)
  finally have "unat (time mod total_delay c)
      < sum_list (map (\<lambda>img. unat (delay img)) (drop 0 (images c)))"
    by (simp add: comp_def)
  from frame_loop_in_bounds [OF this] obtain j where
    "frame_loop (images c) (time mod total_delay c) 0 = Inr j" "j < length (images c)"
    by auto
  with False td show ?thesis
    by (simp add: wl_cursor_frame_def image_count_def)
qed

text \<open>
  Claim C10. For every cursor with at least one frame and, when it has more than one,
  a \<open>total_delay\<close> above zero, \<^verbatim>\<open>wl_cursor_frame\<close> returns an index below
  \<open>image_count\<close>: the loop ends inside the frame array and the modulo does not divide
  by zero. A cursor is what the library builds: its \<open>total_delay\<close> is the 32-bit sum
  of the delays of its frames, as in every theme that \<^verbatim>\<open>wl_cursor_theme_load\<close> returns
  (lemmas \<open>theme_load_cursor_sum\<close> and \<open>loaded_cursor_frame_in_bounds\<close> below).
\<close>

theorem wl_cursor_frame_in_bounds:
  assumes "total_delay c = sum_list (map delay (images c))"
    and "1 \<le> image_count c"
    and "1 < image_count c \<longrightarrow> 0 < total_delay c"
  shows "\<exists>i. wl_cursor_frame c time = Inr i \<and> i < image_count c"
  using assms by (rule frame_in_bounds_of_sum)

theorem wl_cursor_frame_in_bounds_witness:
  "\<exists>i. wl_cursor_frame \<lparr>name = ''wait'', images = [frame 100, frame 200, frame 150],
                         total_delay = 450\<rparr> 1000 = Inr i
       \<and> i < image_count \<lparr>name = ''wait'', images = [frame 100, frame 200, frame 150],
                           total_delay = 450\<rparr>"
proof -
  let ?c = "\<lparr>name = ''wait'', images = [frame 100, frame 200, frame 150],
             total_delay = 450\<rparr>"
  have sum: "total_delay ?c = sum_list (map delay (images ?c))"
    by (simp add: frame_def)
  have one: "1 \<le> image_count ?c"
    by (simp add: image_count_def)
  have pos: "1 < image_count ?c \<longrightarrow> 0 < total_delay ?c"
    by simp
  show ?thesis
    by (rule wl_cursor_frame_in_bounds [OF sum one pos])
qed

text \<open>
  Claim C9. A cursor of one frame yields frame 0 at 0, 1 and 1000000 ms, whatever its
  delay; the cursor with delays 100, 200, 150 (total 450) yields 0 at 0 ms, 1 at 150,
  2 at 449, 0 at 450 and 0 at 900.
\<close>

theorem wl_cursor_frame_examples:
  "wl_cursor_frame \<lparr>name = n, images = [img], total_delay = td\<rparr> 0 = Inr 0
   \<and> wl_cursor_frame \<lparr>name = n, images = [img], total_delay = td\<rparr> 1 = Inr 0
   \<and> wl_cursor_frame \<lparr>name = n, images = [img], total_delay = td\<rparr> 1000000 = Inr 0
   \<and> wl_cursor_frame \<lparr>name = n, images = [a\<lparr>delay := 100\<rparr>, b\<lparr>delay := 200\<rparr>,
         c\<lparr>delay := 150\<rparr>], total_delay = 450\<rparr> 0 = Inr 0
   \<and> wl_cursor_frame \<lparr>name = n, images = [a\<lparr>delay := 100\<rparr>, b\<lparr>delay := 200\<rparr>,
         c\<lparr>delay := 150\<rparr>], total_delay = 450\<rparr> 150 = Inr 1
   \<and> wl_cursor_frame \<lparr>name = n, images = [a\<lparr>delay := 100\<rparr>, b\<lparr>delay := 200\<rparr>,
         c\<lparr>delay := 150\<rparr>], total_delay = 450\<rparr> 449 = Inr 2
   \<and> wl_cursor_frame \<lparr>name = n, images = [a\<lparr>delay := 100\<rparr>, b\<lparr>delay := 200\<rparr>,
         c\<lparr>delay := 150\<rparr>], total_delay = 450\<rparr> 450 = Inr 0
   \<and> wl_cursor_frame \<lparr>name = n, images = [a\<lparr>delay := 100\<rparr>, b\<lparr>delay := 200\<rparr>,
         c\<lparr>delay := 150\<rparr>], total_delay = 450\<rparr> 900 = Inr 0"
  by (simp add: wl_cursor_frame_def image_count_def frame_loop.simps)

text \<open>With positive delays the loop and the specification's walk agree from any
  frame on: the time left is \<open>t\<close>, the time passed is \<open>cum\<close>.\<close>

lemma frame_loop_positive_delays:
  "\<forall>img \<in> set imgs. delay img \<noteq> 0 \<Longrightarrow>
   frame_loop imgs t i =
     (case spec_frame_from (map (\<lambda>img. unat (delay img)) (drop i imgs)) (cum + unat t) cum i of
        Some j \<Rightarrow> Inr j
      | None \<Rightarrow> Inl Out_of_bounds)"
proof (induction imgs t i arbitrary: cum rule: frame_loop.induct)
  case (1 imgs t i)
  show ?case
  proof (cases "i < length imgs")
    case False
    then show ?thesis by (subst frame_loop.simps) simp
  next
    case True
    then have split: "drop i imgs = imgs ! i # drop (i + 1) imgs"
      by (simp add: Cons_nth_drop_Suc)
    from True "1.prems" have nz: "delay (imgs ! i) \<noteq> 0" by simp
    show ?thesis
    proof (cases "t - delay (imgs ! i) < t")
      case False
      with nz have "unat t < unat (delay (imgs ! i))"
        by (simp add: wrapped_test_iff word_le_nat_alt)
      with True False show ?thesis
        by (subst frame_loop.simps) (simp add: split)
    next
      case go: True
      then have le: "delay (imgs ! i) \<le> t" by (simp add: wrapped_test_iff)
      then have le': "unat (delay (imgs ! i)) \<le> unat t" by (simp add: word_le_nat_alt)
      have sub: "unat (t - delay (imgs ! i)) = unat t - unat (delay (imgs ! i))"
        using le by (simp add: unat_sub)
      have "frame_loop imgs t i = frame_loop imgs (t - delay (imgs ! i)) (i + 1)"
        using True go by (subst frame_loop.simps) simp
      also have "\<dots> =
        (case spec_frame_from (map (\<lambda>img. unat (delay img)) (drop (i + 1) imgs))
                (cum + unat (delay (imgs ! i)) + unat (t - delay (imgs ! i)))
                (cum + unat (delay (imgs ! i))) (i + 1) of
           Some j \<Rightarrow> Inr j | None \<Rightarrow> Inl Out_of_bounds)"
        using True go "1.prems" by (intro "1.IH") auto
      finally show ?thesis
        using le' by (simp add: split sub)
    qed
  qed
qed

text \<open>So \<^verbatim>\<open>wl_cursor_frame\<close> computes the specification's frame for every cursor of
  several frames whose delays are all positive.\<close>

lemma wl_cursor_frame_positive_delays:
  assumes "image_count c \<noteq> 1" and "total_delay c \<noteq> 0"
    and "\<forall>img \<in> set (images c). delay img \<noteq> 0"
  shows "wl_cursor_frame c time =
     (case spec_frame_at c time of Some j \<Rightarrow> Inr j | None \<Rightarrow> Inl Out_of_bounds)"
  using assms frame_loop_positive_delays [of "images c" "time mod total_delay c" 0 0]
  by (simp add: wl_cursor_frame_def spec_frame_at_def unat_mod)

text \<open>
  Claim C1. For every cursor of several frames with \<open>total_delay > 0\<close>,
  \<^verbatim>\<open>wl_cursor_frame\<close> should return the frame \<open>i\<close> with
  \<open>cum\<^sub>i \<le> t < cum\<^sub>i + delay\<^sub>i\<close>. At a frame whose delay is 0 the loop test
  \<^verbatim>\<open>t - delay < t\<close> is false and the loop stops there: for the delays 0, 100 at 50 ms
  the source returns frame 0, whose window is empty, where the specification's walk
  gives frame 1. The cursor is one that a theme load builds when the loader reports
  these delays.
\<close>

theorem wl_cursor_frame_stops_at_zero_delay:
  "wl_cursor_frame \<lparr>name = ''wait'', images = [frame 0, frame 100], total_delay = 100\<rparr> 50
     = Inr 0
   \<and> spec_frame_at \<lparr>name = ''wait'', images = [frame 0, frame 100], total_delay = 100\<rparr> 50
     = Some 1
   \<and> wl_cursor_frame (hd (cursors (the (projr (wl_cursor_theme_load
        (env_theme [\<lparr>XcursorImages.name = ''wait'',
                     images = [xframe 1 1 0, xframe 1 1 100]\<rparr>]) None 1))))) 50
     = Inr 0
   \<and> spec_frame_at (hd (cursors (the (projr (wl_cursor_theme_load
        (env_theme [\<lparr>XcursorImages.name = ''wait'',
                     images = [xframe 1 1 0, xframe 1 1 100]\<rparr>]) None 1))))) 50
     = Some 1"
  by (simp add: wl_cursor_frame_def spec_frame_at_def image_count_def frame_loop.simps
      frame_def load_defs)

section \<open>Words\<close>

text \<open>How a 32-bit pattern reads as a C \<^verbatim>\<open>int\<close>, and when unsigned sums do not wrap.\<close>

lemma sint_cases:
  "sint (w :: uint32) = (if uint w < 2147483648 then uint w else uint w - 4294967296)"
proof -
  have b: "uint w < 4294967296" using unsigned_less [of w, where 'a = int] by simp
  have n: "0 \<le> uint w" by simp
  have p: "(2 :: int) ^ 31 = 2147483648" by simp
  have "sint w = signed_take_bit 31 (uint w)" by (simp add: sint_uint)
  also have "\<dots> = (if uint w < 2147483648 then uint w else uint w - 4294967296)"
  proof (cases "uint w < 2147483648")
    case True
    have "- (2 ^ 31) \<le> uint w" unfolding p using n by linarith
    moreover have "uint w < 2 ^ 31" unfolding p using True by linarith
    ultimately have "signed_take_bit 31 (uint w) = uint w"
      by (rule signed_take_bit_int_eq_self)
    with True show ?thesis by simp
  next
    case False
    have "- (2 ^ 31) \<le> uint w - 4294967296" unfolding p using False by linarith
    moreover have "uint w - 4294967296 < 2 ^ 31" unfolding p using b by linarith
    ultimately have "signed_take_bit 31 (uint w - 4294967296) = uint w - 4294967296"
      by (rule signed_take_bit_int_eq_self)
    moreover have "signed_take_bit 31 (uint w - 4294967296) = signed_take_bit 31 (uint w)"
      by (simp add: signed_take_bit_eq_iff_take_bit_eq take_bit_eq_mod)
    ultimately show ?thesis using False by simp
  qed
  finally show ?thesis .
qed

lemma unat_lt_2p32: "unat (w :: uint32) < 4294967296"
  using unsigned_less [of w, where 'a = nat] by simp

lemma sint_pos_iff: "0 < sint (w :: uint32) \<longleftrightarrow> 0 < unat w \<and> unat w < 2147483648"
proof -
  define n where "n = unat w"
  have u: "uint w = int n" unfolding n_def by (rule uint_nat)
  have "n < 4294967296" unfolding n_def by (rule unat_lt_2p32)
  then have "0 < (if int n < 2147483648 then int n else int n - 4294967296)
      \<longleftrightarrow> 0 < n \<and> n < 2147483648"
    by auto
  then show ?thesis
    unfolding sint_cases u n_def .
qed

lemma sint_neg_iff: "sint (w :: uint32) < 0 \<longleftrightarrow> 2147483648 \<le> unat w"
proof -
  define n where "n = unat w"
  have u: "uint w = int n" unfolding n_def by (rule uint_nat)
  have "n < 4294967296" unfolding n_def by (rule unat_lt_2p32)
  then have "(if int n < 2147483648 then int n else int n - 4294967296) < 0
      \<longleftrightarrow> 2147483648 \<le> n"
    by auto
  then show ?thesis
    unfolding sint_cases u n_def .
qed

lemma sint_small: "unat (w :: uint32) < 2147483648 \<Longrightarrow> sint w = int (unat w)"
proof -
  define n where "n = unat w"
  have u: "uint w = int n" unfolding n_def by (rule uint_nat)
  assume "unat w < 2147483648"
  then have "n < 2147483648" unfolding n_def .
  then have "(if int n < 2147483648 then int n else int n - 4294967296) = int n"
    by auto
  then show ?thesis
    unfolding sint_cases u n_def .
qed

lemma unat_add_small:
  "unat (a :: uint32) + unat b < 4294967296 \<Longrightarrow> unat (a + b) = unat a + unat b"
  by (simp add: unat_word_ariths)

lemma unat_double_add_small:
  "2 * unat (c :: uint32) + unat s < 4294967296 \<Longrightarrow> unat (2 * c + s) = 2 * unat c + unat s"
  by (simp add: unat_word_ariths mod_mult_right_eq mod_add_left_eq)

lemma unat_minus_1_32: "unat (- 1 :: uint32) = 4294967295"
  by (simp add: unsigned_minus_1_eq_mask mask_eq_exp_minus_1)

lemma sint_nonneg_nat:
  assumes "\<not> sint (w :: uint32) < 0"
  shows "nat (sint w) = unat w" and "unat w < 2147483648"
proof -
  from assms show b: "unat w < 2147483648" by (simp add: sint_neg_iff)
  show "nat (sint w) = unat w" unfolding sint_small [OF b] by (rule nat_int)
qed

section \<open>The pool allocator\<close>

text \<open>The three ways through \<^verbatim>\<open>shm_pool_allocate\<close>.\<close>

lemma shm_pool_allocate_no_growth:
  "\<not> size_p p < used p + sz \<Longrightarrow>
   shm_pool_allocate env p sz = (used p, p\<lparr>used := used p + sz\<rparr>)"
  by (simp add: shm_pool_allocate_def)

lemma shm_pool_allocate_growth_fail:
  "size_p p < used p + sz \<Longrightarrow> ftruncate env (fd p) (sint (2 * size_p p + sz)) = None \<Longrightarrow>
   shm_pool_allocate env p sz = (- 1, p)"
  by (simp add: shm_pool_allocate_def shm_pool_resize_def)

lemma shm_pool_allocate_growth_ok:
  "size_p p < used p + sz \<Longrightarrow> ftruncate env (fd p) (sint (2 * size_p p + sz)) = Some f \<Longrightarrow>
   shm_pool_allocate env p sz =
     (used p, p\<lparr>pool := pool p @ [Resize (sint (2 * size_p p + sz))], fd := f,
                data := mmap env (nat (sint (2 * size_p p + sz))),
                size_p := 2 * size_p p + sz, used := used p + sz\<rparr>)"
  by (simp add: shm_pool_allocate_def shm_pool_resize_def)

lemma grow_test_nat:
  assumes inv: "unat (used p) \<le> unat (size_p p)" "unat (size_p p) < 2147483648"
    and pos: "0 < sint sz"
  shows "size_p p < used p + sz \<longleftrightarrow> unat (size_p p) < unat (used p) + unat sz"
    and "unat (used p + sz) = unat (used p) + unat sz"
proof -
  from pos have s: "unat sz < 2147483648" by (simp add: sint_pos_iff)
  with inv have "unat (used p) + unat sz < 4294967296" by linarith
  then show sum: "unat (used p + sz) = unat (used p) + unat sz"
    by (rule unat_add_small)
  show "size_p p < used p + sz \<longleftrightarrow> unat (size_p p) < unat (used p) + unat sz"
    unfolding word_less_nat_alt sum ..
qed

lemma ftruncate_Some_iff:
  "ftruncate env f n = Some g \<longleftrightarrow>
     0 \<le> n \<and> truncate_ok env n \<and>
     g = \<lparr>len = nat n, bytes = (\<lambda>i. if i < len f \<and> i < nat n then bytes f i else 0)\<rparr>"
  by (auto simp: ftruncate_def)

lemma ftruncate_None_iff:
  "ftruncate env f n = None \<longleftrightarrow> n < 0 \<or> \<not> truncate_ok env n"
  by (simp add: ftruncate_def)

lemma fresh_pool_create: "0 \<le> sint n \<Longrightarrow> shm_pool_create env_ok n = Some (fresh_pool n)"
  by (simp add: shm_pool_create_def os_create_anonymous_file_def mmap_def env_ok_def fresh_pool_def)

text \<open>
  Claim C6. If an allocation needs the pool to grow and the resize of the backing
  file fails, \<^verbatim>\<open>shm_pool_allocate\<close> returns -1 and leaves the pool as it was: capacity,
  \<open>used\<close> and everything else.
\<close>

theorem shm_pool_allocate_resize_failure:
  assumes "size_p p < used p + sz"
    and "ftruncate env (fd p) (sint (2 * size_p p + sz)) = None"
  shows "shm_pool_allocate env p sz = (- 1, p)"
  using assms by (rule shm_pool_allocate_growth_fail)

theorem shm_pool_allocate_resize_failure_witness:
  "size_p ((fresh_pool 16)\<lparr>used := 16\<rparr>) < used ((fresh_pool 16)\<lparr>used := 16\<rparr>) + 4
   \<and> ftruncate (env_limit 32) (fd ((fresh_pool 16)\<lparr>used := 16\<rparr>))
        (sint (2 * size_p ((fresh_pool 16)\<lparr>used := 16\<rparr>) + 4)) = None
   \<and> shm_pool_allocate (env_limit 32) ((fresh_pool 16)\<lparr>used := 16\<rparr>) 4
        = (- 1, (fresh_pool 16)\<lparr>used := 16\<rparr>)"
proof -
  let ?p = "(fresh_pool 16)\<lparr>used := 16\<rparr>"
  have g: "size_p ?p < used ?p + 4" by (simp add: fresh_pool_def)
  have f: "ftruncate (env_limit 32) (fd ?p) (sint (2 * size_p ?p + 4)) = None"
    by (simp add: ftruncate_def env_limit_def env_ok_def fresh_pool_def)
  from g f shm_pool_allocate_resize_failure [OF g f] show ?thesis by simp
qed

text \<open>
  Claim C2, as stated: for every pool with \<open>used \<le> capacity\<close> and every positive size
  \<open>s\<close> with \<open>used + s > capacity\<close>, a successful allocation leaves the capacity at
  \<open>max (capacity * 2 + s) (capacity + s)\<close>. The source computes \<open>2 * capacity + s\<close> in
  32 bits. A theme of size 23170 has a pool of 2147395600 bytes; when it is full, the
  allocation of 176100 bytes asks for \<open>2 * 2147395600 + 176100\<close>, which wraps around
  to 4: \<^verbatim>\<open>ftruncate\<close> cuts the file to four bytes, the capacity becomes 4, and the
  allocation still returns the offset 2147395600.
\<close>

theorem shm_pool_allocate_growth_wraps:
  "used ((fresh_pool 2147395600)\<lparr>used := 2147395600\<rparr>)
      \<le> size_p ((fresh_pool 2147395600)\<lparr>used := 2147395600\<rparr>)
   \<and> 0 < sint (176100 :: c_int)
   \<and> unat (size_p ((fresh_pool 2147395600)\<lparr>used := 2147395600\<rparr>))
      < unat (used ((fresh_pool 2147395600)\<lparr>used := 2147395600\<rparr>)) + unat (176100 :: c_int)
   \<and> fst (shm_pool_allocate env_ok ((fresh_pool 2147395600)\<lparr>used := 2147395600\<rparr>) 176100)
      = 2147395600
   \<and> fst (shm_pool_allocate env_ok ((fresh_pool 2147395600)\<lparr>used := 2147395600\<rparr>) 176100)
      \<noteq> - 1
   \<and> size_p (snd (shm_pool_allocate env_ok ((fresh_pool 2147395600)\<lparr>used := 2147395600\<rparr>)
        176100)) = 4
   \<and> unat (size_p (snd (shm_pool_allocate env_ok
        ((fresh_pool 2147395600)\<lparr>used := 2147395600\<rparr>) 176100)))
      \<noteq> max (unat (size_p ((fresh_pool 2147395600)\<lparr>used := 2147395600\<rparr>)) * 2
               + unat (176100 :: c_int))
            (unat (size_p ((fresh_pool 2147395600)\<lparr>used := 2147395600\<rparr>))
               + unat (176100 :: c_int))
   \<and> len (fd (snd (shm_pool_allocate env_ok
        ((fresh_pool 2147395600)\<lparr>used := 2147395600\<rparr>) 176100))) = 4"
  by (simp add: shm_pool_allocate_def shm_pool_resize_def ftruncate_def mmap_def env_ok_def
      fresh_pool_def)

text \<open>
  Claim C2, amended: the same, provided \<open>2 * capacity + s\<close> does not exceed
  \<^verbatim>\<open>INT_MAX\<close>. The allocation succeeds exactly when the file can be resized to that
  length; it then returns the old \<open>used\<close> as offset, has sent exactly one resize
  request, the capacity is \<open>2 * capacity + s\<close>, \<open>used\<close> has grown by \<open>s\<close> and is within
  the capacity, and every byte of the pool below the old capacity, so every byte of an
  allocated range, is what it was. The file is as long as the capacity, as after
  \<^verbatim>\<open>shm_pool_create\<close> and after every resize.
\<close>

theorem shm_pool_allocate_growth:
  assumes inv: "used p \<le> size_p p"
    and flen: "len (fd p) = unat (size_p p)"
    and pos: "0 < sint sz"
    and grow: "unat (size_p p) < unat (used p) + unat sz"
    and fits: "2 * unat (size_p p) + unat sz < 2147483648"
    and run: "shm_pool_allocate env p sz = (off, p')"
  shows "(off \<noteq> - 1 \<longleftrightarrow> truncate_ok env (int (2 * unat (size_p p) + unat sz)))
    \<and> (off \<noteq> - 1 \<longrightarrow>
          off = used p
        \<and> pool p' = pool p @ [Resize (int (2 * unat (size_p p) + unat sz))]
        \<and> unat (size_p p') = max (unat (size_p p) * 2 + unat sz) (unat (size_p p) + unat sz)
        \<and> unat (size_p p') = 2 * unat (size_p p) + unat sz
        \<and> len (fd p') = unat (size_p p')
        \<and> unat (used p') = unat (used p) + unat sz
        \<and> used p' \<le> size_p p'
        \<and> (\<forall>i < unat (size_p p). bytes (fd p') i = bytes (fd p) i))"
proof -
  let ?n = "2 * size_p p + sz"
  have c: "unat (size_p p) < 2147483648" using fits by linarith
  have u: "unat (used p) \<le> unat (size_p p)" using inv by (simp add: word_le_nat_alt)
  have n: "unat ?n = 2 * unat (size_p p) + unat sz"
    using fits by (intro unat_double_add_small) linarith
  then have sn: "sint ?n = int (2 * unat (size_p p) + unat sz)"
    using fits sint_small [of ?n] by simp
  have nn: "nat (sint ?n) = 2 * unat (size_p p) + unat sz"
    unfolding sn by (rule nat_int)
  have g: "size_p p < used p + sz"
    using grow grow_test_nat(1) [OF u c pos] by simp
  have sum: "unat (used p + sz) = unat (used p) + unat sz"
    by (rule grow_test_nat(2) [OF u c pos])
  have used_ne: "used p \<noteq> - 1"
  proof
    assume "used p = - 1"
    then have "unat (used p) = 4294967295" by (simp add: unat_minus_1_32)
    with u c show False by linarith
  qed
  show ?thesis
  proof (cases "truncate_ok env (int (2 * unat (size_p p) + unat sz))")
    case False
    then have "ftruncate env (fd p) (sint ?n) = None"
      by (simp add: ftruncate_None_iff sn)
    from shm_pool_allocate_growth_fail [OF g this] run False show ?thesis by simp
  next
    case True
    define f where "f = \<lparr>len = nat (sint ?n),
        bytes = (\<lambda>i. if i < len (fd p) \<and> i < nat (sint ?n) then bytes (fd p) i else 0)\<rparr>"
    have "ftruncate env (fd p) (sint ?n) = Some f"
      using True by (simp add: ftruncate_Some_iff sn f_def)
    from shm_pool_allocate_growth_ok [OF g this] run
    have off: "off = used p"
      and p': "p' = p\<lparr>pool := pool p @ [Resize (sint ?n)], fd := f,
                data := mmap env (nat (sint ?n)), size_p := ?n, used := used p + sz\<rparr>"
      by simp_all
    have "used p' \<le> size_p p'"
      using u grow by (simp add: p' word_le_nat_alt sum n)
    moreover have "\<forall>i < unat (size_p p). bytes (fd p') i = bytes (fd p) i"
      using grow by (simp add: p' f_def flen nn)
    moreover have "len (fd p') = unat (size_p p')"
      by (simp add: p' f_def nn n)
    ultimately show ?thesis
      using True used_ne by (simp add: off p' sn n sum)
  qed
qed

theorem shm_pool_allocate_growth_witness:
  "fst (shm_pool_allocate env_ok small_pool 8) = 12
   \<and> pool (snd (shm_pool_allocate env_ok small_pool 8)) = [Resize 40]
   \<and> unat (size_p (snd (shm_pool_allocate env_ok small_pool 8))) = 40
   \<and> unat (used (snd (shm_pool_allocate env_ok small_pool 8))) = 20
   \<and> bytes (fd (snd (shm_pool_allocate env_ok small_pool 8))) 11 = 255"
proof -
  let ?r = "shm_pool_allocate env_ok small_pool 8"
  have inv: "used small_pool \<le> size_p small_pool"
    by (simp add: small_pool_def fresh_pool_def)
  have flen: "len (fd small_pool) = unat (size_p small_pool)"
    by (simp add: small_pool_def fresh_pool_def)
  have pos: "0 < sint (8 :: c_int)" by simp
  have grow: "unat (size_p small_pool) < unat (used small_pool) + unat (8 :: c_int)"
    by (simp add: small_pool_def fresh_pool_def)
  have fits: "2 * unat (size_p small_pool) + unat (8 :: c_int) < 2147483648"
    by (simp add: small_pool_def fresh_pool_def)
  have run: "?r = (fst ?r, snd ?r)" by simp
  have ok: "truncate_ok env_ok (int (2 * unat (size_p small_pool) + unat (8 :: c_int)))"
    by (simp add: env_ok_def)
  from shm_pool_allocate_growth [OF inv flen pos grow fits run] ok
  show ?thesis by (simp add: small_pool_def fresh_pool_def)
qed

text \<open>One successful allocation keeps \<open>used \<le> capacity \<le> INT_MAX\<close>, when the growth
  it may need fits into an \<^verbatim>\<open>int\<close>.\<close>

lemma shm_pool_allocate_step:
  assumes u: "unat (used p) \<le> unat (size_p p)"
    and c: "unat (size_p p) < 2147483648"
    and pos: "0 < sint sz"
    and fits: "unat (size_p p) < unat (used p) + unat sz
               \<longrightarrow> 2 * unat (size_p p) + unat sz < 2147483648"
    and run: "shm_pool_allocate env p sz = (off, p')"
    and ok: "off \<noteq> - 1"
  shows "off = used p"
    and "unat (used p') = unat (used p) + unat sz"
    and "unat (used p') \<le> unat (size_p p')"
    and "unat (size_p p') < 2147483648"
    and "unat (size_p p') = (if unat (size_p p) < unat (used p) + unat sz
                             then 2 * unat (size_p p) + unat sz else unat (size_p p))"
proof -
  let ?n = "2 * size_p p + sz"
  have sum: "unat (used p + sz) = unat (used p) + unat sz"
    by (rule grow_test_nat(2) [OF u c pos])
  have test: "size_p p < used p + sz \<longleftrightarrow> unat (size_p p) < unat (used p) + unat sz"
    by (rule grow_test_nat(1) [OF u c pos])
  have "off = used p
      \<and> unat (used p') = unat (used p) + unat sz
      \<and> unat (used p') \<le> unat (size_p p')
      \<and> unat (size_p p') < 2147483648
      \<and> unat (size_p p') = (if unat (size_p p) < unat (used p) + unat sz
                             then 2 * unat (size_p p) + unat sz else unat (size_p p))"
  proof (cases "unat (size_p p) < unat (used p) + unat sz")
    case False
    then have "\<not> size_p p < used p + sz" by (simp add: test)
    from shm_pool_allocate_no_growth [OF this, where env = env] run
    have "off = used p" "p' = p\<lparr>used := used p + sz\<rparr>" by simp_all
    with False c show ?thesis by (simp add: sum)
  next
    case True
    then have g: "size_p p < used p + sz" by (simp add: test)
    from True fits have f: "2 * unat (size_p p) + unat sz < 2147483648" by simp
    have n: "unat ?n = 2 * unat (size_p p) + unat sz"
      using f by (intro unat_double_add_small) linarith
    show ?thesis
    proof (cases "ftruncate env (fd p) (sint ?n)")
      case None
      from shm_pool_allocate_growth_fail [OF g None] run ok show ?thesis by simp
    next
      case (Some f')
      from shm_pool_allocate_growth_ok [OF g Some] run
      have "off = used p" "size_p p' = ?n" "used p' = used p + sz" by auto
      with True f u show ?thesis by (simp add: sum n)
    qed
  qed
  then show "off = used p"
    and "unat (used p') = unat (used p) + unat sz"
    and "unat (used p') \<le> unat (size_p p')"
    and "unat (size_p p') < 2147483648"
    and "unat (size_p p') = (if unat (size_p p) < unat (used p) + unat sz
                             then 2 * unat (size_p p) + unat sz else unat (size_p p))"
    by simp_all
qed

lemma allocate_all_Cons_Some:
  assumes "allocate_all env p (s # ss) = Some rs"
  obtains off p' rs' where "shm_pool_allocate env p s = (off, p')" "off \<noteq> - 1"
    "allocate_all env p' ss = Some rs'" "rs = (off, p') # rs'"
  using assms by (auto simp: Let_def split: prod.splits if_splits)

lemma allocate_all_invariant:
  assumes "unat (used p) \<le> unat (size_p p)"
    and "unat (size_p p) < 2147483648"
    and "\<forall>s \<in> set sizes. 0 < sint s"
    and "growth_fits (unat (size_p p)) (unat (used p)) (map unat sizes)"
    and "allocate_all env p sizes = Some rs"
  shows "length rs = length sizes
    \<and> (\<forall>k < length sizes.
          fst (rs ! k) = (if k = 0 then used p else used (snd (rs ! (k - 1))))
        \<and> unat (used (snd (rs ! k))) = unat (used p) + sum_list (map unat (take (Suc k) sizes))
        \<and> unat (used (snd (rs ! k))) \<le> unat (size_p (snd (rs ! k)))
        \<and> unat (size_p (snd (rs ! k))) < 2147483648)"
  using assms
proof (induction sizes arbitrary: p rs)
  case Nil
  then show ?case by simp
next
  case (Cons s ss)
  from Cons.prems(5) obtain off p' rs' where
    step: "shm_pool_allocate env p s = (off, p')" and ok: "off \<noteq> - 1"
    and rest: "allocate_all env p' ss = Some rs'" and rs: "rs = (off, p') # rs'"
    by (rule allocate_all_Cons_Some)
  from Cons.prems(3) have pos: "0 < sint s" by simp
  from Cons.prems(4)
  have fits: "unat (size_p p) < unat (used p) + unat s
              \<longrightarrow> 2 * unat (size_p p) + unat s < 2147483648"
    by (simp split: if_splits)
  note st = shm_pool_allocate_step [OF Cons.prems(1) Cons.prems(2) pos fits step ok]
  from Cons.prems(4) have fits': "growth_fits (unat (size_p p')) (unat (used p')) (map unat ss)"
    by (simp add: st(2) st(5) split: if_splits)
  from Cons.prems(3) have pos': "\<forall>s \<in> set ss. 0 < sint s" by simp
  from Cons.IH [OF st(3) st(4) pos' fits' rest]
  have len: "length rs' = length ss"
    and ih: "\<And>k. k < length ss \<Longrightarrow>
          fst (rs' ! k) = (if k = 0 then used p' else used (snd (rs' ! (k - 1))))
        \<and> unat (used (snd (rs' ! k))) = unat (used p') + sum_list (map unat (take (Suc k) ss))
        \<and> unat (used (snd (rs' ! k))) \<le> unat (size_p (snd (rs' ! k)))
        \<and> unat (size_p (snd (rs' ! k))) < 2147483648"
    by blast+
  have main: "fst (rs ! k) = (if k = 0 then used p else used (snd (rs ! (k - 1))))
        \<and> unat (used (snd (rs ! k))) = unat (used p) + sum_list (map unat (take (Suc k) (s # ss)))
        \<and> unat (used (snd (rs ! k))) \<le> unat (size_p (snd (rs ! k)))
        \<and> unat (size_p (snd (rs ! k))) < 2147483648"
    if k: "k < length (s # ss)" for k
  proof (cases k)
    case 0
    with st(3) st(4) show ?thesis by (simp add: rs st(1) st(2))
  next
    case (Suc k')
    with k have "k' < length ss" by simp
    from ih [OF this] Suc show ?thesis
      by (cases k') (simp_all add: rs st(2))
  qed
  show ?case
  proof (rule conjI)
    show "length rs = length (s # ss)" using len rs by simp
  next
    show "\<forall>k < length (s # ss).
          fst (rs ! k) = (if k = 0 then used p else used (snd (rs ! (k - 1))))
        \<and> unat (used (snd (rs ! k))) = unat (used p) + sum_list (map unat (take (Suc k) (s # ss)))
        \<and> unat (used (snd (rs ! k))) \<le> unat (size_p (snd (rs ! k)))
        \<and> unat (size_p (snd (rs ! k))) < 2147483648"
      using main by blast
  qed
qed

lemma shm_pool_create_Some:
  assumes "shm_pool_create env c0 = Some p0"
  shows "used p0 = 0" and "size_p p0 = c0" and "unat c0 < 2147483648"
    and "len (fd p0) = unat c0" and "pool p0 = []"
proof -
  from assms have nn: "\<not> sint c0 < 0"
    by (auto simp: shm_pool_create_def os_create_anonymous_file_def split: if_splits)
  then show c: "unat c0 < 2147483648" by (simp add: sint_neg_iff)
  from assms show "used p0 = 0" "size_p p0 = c0" "pool p0 = []"
    by (auto simp: shm_pool_create_def split: option.splits mapped_region.splits)
  from assms have "len (fd p0) = nat (sint c0)"
    by (auto simp: shm_pool_create_def os_create_anonymous_file_def
        split: option.splits mapped_region.splits if_splits)
  also have "\<dots> = unat c0"
    unfolding sint_small [OF c] by (rule nat_int)
  finally show "len (fd p0) = unat c0" .
qed

lemma sum_list_take_mono: "j \<le> k \<Longrightarrow> sum_list (take j (xs :: nat list)) \<le> sum_list (take k xs)"
proof (induction xs arbitrary: j k)
  case Nil
  then show ?case by simp
next
  case (Cons x xs)
  show ?case
  proof (cases j)
    case 0
    then show ?thesis by simp
  next
    case (Suc j')
    with Cons.prems obtain k' where k: "k = Suc k'" and "j' \<le> k'" by (cases k) auto
    with Cons.IH [of j' k'] Suc show ?thesis by simp
  qed
qed

text \<open>
  Claim C3, as stated: after every successful allocation on a freshly created pool,
  \<open>used \<le> capacity\<close>. On the fresh pool of a theme of size 23170, 2147395600 bytes,
  the allocations of 2147395600 and 176100 bytes both succeed (offsets 0 and
  2147395600); the second one lets the 32-bit capacity \<open>2 * 2147395600 + 176100\<close> wrap
  around to 4, while \<open>used\<close> is 2147571700.
\<close>

theorem allocations_capacity_wraps:
  "shm_pool_create env_ok (23170 * 23170 * 4) = Some (fresh_pool 2147395600)
   \<and> 0 < sint (2147395600 :: c_int) \<and> 0 < sint (176100 :: c_int)
   \<and> allocate_all env_ok (fresh_pool 2147395600) [2147395600, 176100] \<noteq> None
   \<and> map fst (the (allocate_all env_ok (fresh_pool 2147395600) [2147395600, 176100]))
       = [0, 2147395600]
   \<and> used (snd (the (allocate_all env_ok (fresh_pool 2147395600) [2147395600, 176100]) ! 1))
       = 2147571700
   \<and> size_p (snd (the (allocate_all env_ok (fresh_pool 2147395600) [2147395600, 176100]) ! 1))
       = 4
   \<and> \<not> used (snd (the (allocate_all env_ok (fresh_pool 2147395600) [2147395600, 176100]) ! 1))
        \<le> size_p (snd (the (allocate_all env_ok (fresh_pool 2147395600) [2147395600, 176100])
              ! 1))"
  by (simp add: shm_pool_create_def os_create_anonymous_file_def
      shm_pool_allocate_def shm_pool_resize_def ftruncate_def mmap_def env_ok_def
      fresh_pool_def)

text \<open>
  Claim C3, amended: for every sequence of successful allocations of positive sizes on
  a freshly created pool in which no growth asks for more than \<^verbatim>\<open>INT_MAX\<close> bytes,
  \<open>used\<close> after the \<open>k\<close>-th allocation is the sum of the first \<open>k\<close> sizes and is within
  the capacity, the \<open>k\<close>-th offset is the sum of the sizes before it, and so the ranges
  \<open>[offset, offset + size)\<close> of any two allocations do not overlap.
\<close>

theorem allocations_on_fresh_pool:
  assumes fresh: "shm_pool_create env c0 = Some p0"
    and pos: "\<forall>s \<in> set sizes. 0 < sint s"
    and fits: "growth_fits (unat c0) 0 (map unat sizes)"
    and run: "allocate_all env p0 sizes = Some rs"
  shows "length rs = length sizes
    \<and> (\<forall>k < length sizes.
          unat (used (snd (rs ! k))) = sum_list (map unat (take (Suc k) sizes))
        \<and> used (snd (rs ! k)) \<le> size_p (snd (rs ! k))
        \<and> sint (fst (rs ! k)) = int (sum_list (map unat (take k sizes))))
    \<and> (\<forall>j k. j < k \<and> k < length sizes
          \<longrightarrow> sint (fst (rs ! j)) + sint (sizes ! j) \<le> sint (fst (rs ! k)))"
proof -
  note p0 = shm_pool_create_Some [OF fresh]
  have u0: "unat (used p0) \<le> unat (size_p p0)" by (simp add: p0)
  have c0: "unat (size_p p0) < 2147483648" by (simp add: p0)
  have fits0: "growth_fits (unat (size_p p0)) (unat (used p0)) (map unat sizes)"
    using fits by (simp add: p0)
  from allocate_all_invariant [OF u0 c0 pos fits0 run]
  have len: "length rs = length sizes"
    and inv: "\<And>k. k < length sizes \<Longrightarrow>
          fst (rs ! k) = (if k = 0 then used p0 else used (snd (rs ! (k - 1))))
        \<and> unat (used (snd (rs ! k))) = unat (used p0) + sum_list (map unat (take (Suc k) sizes))
        \<and> unat (used (snd (rs ! k))) \<le> unat (size_p (snd (rs ! k)))
        \<and> unat (size_p (snd (rs ! k))) < 2147483648"
    by blast+
  have offs: "unat (fst (rs ! k)) = sum_list (map unat (take k sizes))
      \<and> unat (fst (rs ! k)) < 2147483648" if k: "k < length sizes" for k
  proof (cases k)
    case 0
    with inv [OF k] show ?thesis by (simp add: p0)
  next
    case (Suc k')
    with k have k': "k' < length sizes" by simp
    from inv [OF k] Suc have "fst (rs ! k) = used (snd (rs ! k'))" by simp
    with inv [OF k'] Suc show ?thesis by (simp add: p0)
  qed
  have soff: "sint (fst (rs ! k)) = int (sum_list (map unat (take k sizes)))"
    if k: "k < length sizes" for k
    using offs [OF k] sint_small [of "fst (rs ! k)"] by simp
  have per: "unat (used (snd (rs ! k))) = sum_list (map unat (take (Suc k) sizes))
        \<and> used (snd (rs ! k)) \<le> size_p (snd (rs ! k))
        \<and> sint (fst (rs ! k)) = int (sum_list (map unat (take k sizes)))"
    if k: "k < length sizes" for k
    using inv [OF k] soff [OF k] by (simp add: p0 word_le_nat_alt)
  have disj: "sint (fst (rs ! j)) + sint (sizes ! j) \<le> sint (fst (rs ! k))"
    if jk: "j < k" "k < length sizes" for j k
  proof -
    from jk have j: "j < length sizes" by simp
    with pos have "0 < sint (sizes ! j)" by simp
    then have "unat (sizes ! j) < 2147483648" by (simp add: sint_pos_iff)
    then have sj: "sint (sizes ! j) = int (unat (sizes ! j))" by (rule sint_small)
    have "sum_list (map unat (take (Suc j) sizes))
        = sum_list (map unat (take j sizes)) + unat (sizes ! j)"
      using j by (simp add: take_Suc_conv_app_nth)
    moreover have "sum_list (take (Suc j) (map unat sizes)) \<le> sum_list (take k (map unat sizes))"
      using jk by (intro sum_list_take_mono) simp
    ultimately have "sum_list (map unat (take j sizes)) + unat (sizes ! j)
        \<le> sum_list (map unat (take k sizes))"
      by (simp add: take_map)
    then have "int (sum_list (map unat (take j sizes))) + int (unat (sizes ! j))
        \<le> int (sum_list (map unat (take k sizes)))"
      by linarith
    then show ?thesis
      unfolding soff [OF j] soff [OF jk(2)] sj .
  qed
  from len per disj show ?thesis by blast
qed

theorem allocations_on_fresh_pool_witness:
  "allocate_all env_ok (fresh_pool 16) [8, 16, 4] \<noteq> None
   \<and> map (\<lambda>r. sint (fst r)) (the (allocate_all env_ok (fresh_pool 16) [8, 16, 4])) = [0, 8, 24]
   \<and> map (\<lambda>r. unat (used (snd r))) (the (allocate_all env_ok (fresh_pool 16) [8, 16, 4]))
       = [8, 24, 28]
   \<and> list_all (\<lambda>r. used (snd r) \<le> size_p (snd r))
        (the (allocate_all env_ok (fresh_pool 16) [8, 16, 4]))"
proof -
  let ?sizes = "[8, 16, 4] :: c_int list"
  have fresh: "shm_pool_create env_ok 16 = Some (fresh_pool 16)"
    by (simp add: fresh_pool_create)
  have pos: "\<forall>s \<in> set ?sizes. 0 < sint s" by simp
  have fits: "growth_fits (unat (16 :: c_int)) 0 (map unat ?sizes)" by simp
  obtain rs where run: "allocate_all env_ok (fresh_pool 16) ?sizes = Some rs"
    by (simp add: shm_pool_allocate_def shm_pool_resize_def ftruncate_def mmap_def env_ok_def
        fresh_pool_def)
  note t = allocations_on_fresh_pool [OF fresh pos fits run]
  from t have len: "length rs = 3" by simp
  from t have k: "\<And>k. k < 3 \<Longrightarrow>
          unat (used (snd (rs ! k))) = sum_list (map unat (take (Suc k) ?sizes))
        \<and> used (snd (rs ! k)) \<le> size_p (snd (rs ! k))
        \<and> sint (fst (rs ! k)) = int (sum_list (map unat (take k ?sizes)))"
    by simp
  from len obtain a b c where rs: "rs = [a, b, c]"
    by (auto simp: length_Suc_conv numeral_3_eq_3)
  from k [of 0] k [of 1] k [of 2] have
    "map (\<lambda>r. sint (fst r)) rs = [0, 8, 24]"
    "map (\<lambda>r. unat (used (snd r))) rs = [8, 24, 28]"
    "list_all (\<lambda>r. used (snd r) \<le> size_p (snd r)) rs"
    by (simp_all add: rs)
  then show ?thesis unfolding run by simp
qed

section \<open>The buffer of an image\<close>

lemma get_buffer_cached:
  "buffer img = Some h \<Longrightarrow> wl_cursor_image_get_buffer env theme img = (Some h, img, theme)"
  by (simp add: wl_cursor_image_get_buffer_def)

lemma get_buffer_calls_cached:
  "buffer img = Some h \<Longrightarrow>
   get_buffer_calls env n theme img = (replicate n (Some h), img, theme)"
  by (induction n) (simp_all add: get_buffer_cached)

text \<open>
  Claim C7. \<^verbatim>\<open>wl_cursor_image_get_buffer\<close> is idempotent. On an image without a buffer
  the first call sends exactly one creation request on the pool's proxy and stores the
  handle of the new buffer in the image; that call and every later one return this
  handle, and no later call sends anything: neither the calls that follow at once, nor
  a call in any later state \<open>theme'\<close> of the theme.
\<close>

theorem wl_cursor_image_get_buffer_idempotent:
  assumes fresh: "buffer img = None"
  shows "get_buffer_calls env (Suc n) theme img =
     (replicate (Suc n)
        (Some (new_id env (pool (pool_t theme) @
           [Create_buffer (sint (offset img)) (width img) (height img) (width img * 4)
              WL_SHM_FORMAT_ARGB8888]))),
      img\<lparr>buffer := Some (new_id env (pool (pool_t theme) @
           [Create_buffer (sint (offset img)) (width img) (height img) (width img * 4)
              WL_SHM_FORMAT_ARGB8888]))\<rparr>,
      theme\<lparr>pool_t := (pool_t theme)\<lparr>pool := pool (pool_t theme) @
         [Create_buffer (sint (offset img)) (width img) (height img) (width img * 4)
            WL_SHM_FORMAT_ARGB8888]\<rparr>\<rparr>)
   \<and> wl_cursor_image_get_buffer env theme'
        (img\<lparr>buffer := Some (new_id env (pool (pool_t theme) @
           [Create_buffer (sint (offset img)) (width img) (height img) (width img * 4)
              WL_SHM_FORMAT_ARGB8888]))\<rparr>)
     = (Some (new_id env (pool (pool_t theme) @
           [Create_buffer (sint (offset img)) (width img) (height img) (width img * 4)
              WL_SHM_FORMAT_ARGB8888])),
        img\<lparr>buffer := Some (new_id env (pool (pool_t theme) @
           [Create_buffer (sint (offset img)) (width img) (height img) (width img * 4)
              WL_SHM_FORMAT_ARGB8888]))\<rparr>,
        theme')"
proof -
  let ?sent = "pool (pool_t theme) @
         [Create_buffer (sint (offset img)) (width img) (height img) (width img * 4)
            WL_SHM_FORMAT_ARGB8888]"
  let ?h = "new_id env ?sent"
  let ?img = "img\<lparr>buffer := Some ?h\<rparr>"
  let ?theme = "theme\<lparr>pool_t := (pool_t theme)\<lparr>pool := ?sent\<rparr>\<rparr>"
  have first: "wl_cursor_image_get_buffer env theme img = (Some ?h, ?img, ?theme)"
    using fresh
    by (simp add: wl_cursor_image_get_buffer_def wl_shm_pool_create_buffer_def Let_def)
  have cached: "buffer ?img = Some ?h" by simp
  then have "get_buffer_calls env n ?theme ?img = (replicate n (Some ?h), ?img, ?theme)"
    by (rule get_buffer_calls_cached)
  with first have "get_buffer_calls env (Suc n) theme img
      = (replicate (Suc n) (Some ?h), ?img, ?theme)"
    by simp
  moreover from cached have "wl_cursor_image_get_buffer env theme' ?img = (Some ?h, ?img, theme')"
    by (rule get_buffer_cached)
  ultimately show ?thesis by (rule conjI)
qed

theorem wl_cursor_image_get_buffer_idempotent_witness:
  "get_buffer_calls env_ok 3 example_theme (frame 0)
     = ([Some 1, Some 1, Some 1], (frame 0)\<lparr>buffer := Some 1\<rparr>,
        example_theme\<lparr>pool_t := small_pool\<lparr>pool := [Create_buffer 0 1 1 4 WL_SHM_FORMAT_ARGB8888]\<rparr>\<rparr>)"
proof -
  have fresh: "buffer (frame 0) = None" by (simp add: frame_def)
  from wl_cursor_image_get_buffer_idempotent [OF fresh, of env_ok 2 example_theme]
  show ?thesis
    by (simp add: numeral_3_eq_3 frame_def example_theme_def small_pool_def fresh_pool_def
        env_ok_def)
qed

section \<open>Loading a theme\<close>

text \<open>What a successful construction leaves behind.\<close>

lemma create_images_Inr:
  "create_images env xis c theme = Inr (c', theme') \<Longrightarrow>
     name c' = name c
   \<and> total_delay c' = total_delay c + sum_list (map XcursorImage.delay xis)
   \<and> length (images c') = length (images c) + length xis
   \<and> map (\<lambda>i. (width i, height i, hotspot_x i, hotspot_y i, delay i, buffer i)) (images c')
       = map (\<lambda>i. (width i, height i, hotspot_x i, hotspot_y i, delay i, buffer i)) (images c)
         @ map (\<lambda>x. (XcursorImage.width x, XcursorImage.height x, xhot x, yhot x,
                      XcursorImage.delay x, None)) xis
   \<and> cursors theme' = cursors theme \<and> name_t theme' = name_t theme
   \<and> size_t theme' = size_t theme"
proof (induction xis arbitrary: c theme)
  case Nil
  then show ?case by simp
next
  case (Cons xi xis)
  let ?sz = "XcursorImage.width xi * XcursorImage.height xi * 4"
  obtain off p where alloc: "shm_pool_allocate env (pool_t theme) ?sz = (off, p)"
    by (cases "shm_pool_allocate env (pool_t theme) ?sz")
  let ?img = "\<lparr>width = XcursorImage.width xi, height = XcursorImage.height xi,
                hotspot_x = xhot xi, hotspot_y = yhot xi,
                delay = XcursorImage.delay xi, buffer = None, offset = off\<rparr>"
  from Cons.prems alloc obtain p' where
    copy: "memcpy_pool p off (pixels xi) ?sz = Inr p'"
    and rest: "create_images env xis
        (c\<lparr>images := images c @ [?img], total_delay := total_delay c + delay ?img\<rparr>)
        (theme\<lparr>pool_t := p'\<rparr>) = Inr (c', theme')"
    by (auto simp: Let_def split: sum.splits)
  from Cons.IH [OF rest] show ?case by (simp add: add.assoc)
qed

text \<open>The constructor returns a cursor exactly when both requests for memory are
  granted and every frame is copied into the pool.\<close>

lemma create_from_xcursor_images_Some_iff:
  "wl_cursor_create_from_xcursor_images env x theme h = Inr (Some c, theme', h') \<longleftrightarrow>
     malloc_ok env h \<and> malloc_ok env (Suc h) \<and> h' = Suc (Suc h)
   \<and> create_images env (XcursorImages.images x)
        \<lparr>name = XcursorImages.name x, images = [], total_delay = 0\<rparr> theme = Inr (c, theme')"
  by (auto simp: wl_cursor_create_from_xcursor_images_def malloc_def split: sum.splits)

lemma create_from_xcursor_images_None_iff:
  "wl_cursor_create_from_xcursor_images env x theme h = Inr (None, theme', h') \<longleftrightarrow>
     theme' = theme
   \<and> (if malloc_ok env h then \<not> malloc_ok env (Suc h) \<and> h' = Suc (Suc h) else h' = Suc h)"
  by (auto simp: wl_cursor_create_from_xcursor_images_def malloc_def split: sum.splits)

lemma create_from_xcursor_images_Inr:
  assumes "wl_cursor_create_from_xcursor_images env x theme h = Inr (Some c, theme', h')"
  shows "name c = XcursorImages.name x"
    and "total_delay c = sum_list (map XcursorImage.delay (XcursorImages.images x))"
    and "total_delay c = sum_list (map delay (images c))"
    and "image_count c = length (XcursorImages.images x)"
    and "map (\<lambda>i. (width i, height i, hotspot_x i, hotspot_y i, delay i, buffer i)) (images c)
       = map (\<lambda>x. (XcursorImage.width x, XcursorImage.height x, xhot x, yhot x,
                      XcursorImage.delay x, None)) (XcursorImages.images x)"
    and "cursors theme' = cursors theme" and "name_t theme' = name_t theme"
    and "size_t theme' = size_t theme"
proof -
  from assms have "create_images env (XcursorImages.images x)
        \<lparr>name = XcursorImages.name x, images = [], total_delay = 0\<rparr> theme = Inr (c, theme')"
    by (simp add: create_from_xcursor_images_Some_iff)
  note r = create_images_Inr [OF this]
  from r show "name c = XcursorImages.name x"
    and td: "total_delay c = sum_list (map XcursorImage.delay (XcursorImages.images x))"
    and "image_count c = length (XcursorImages.images x)"
    and m: "map (\<lambda>i. (width i, height i, hotspot_x i, hotspot_y i, delay i, buffer i)) (images c)
       = map (\<lambda>x. (XcursorImage.width x, XcursorImage.height x, xhot x, yhot x,
                      XcursorImage.delay x, None)) (XcursorImages.images x)"
    and "cursors theme' = cursors theme" and "name_t theme' = name_t theme"
    and "size_t theme' = size_t theme"
    by (simp_all add: image_count_def)
  have "map delay (images c)
      = map (\<lambda>t. fst (snd (snd (snd (snd t)))))
          (map (\<lambda>i. (width i, height i, hotspot_x i, hotspot_y i, delay i, buffer i)) (images c))"
    by simp
  also have "\<dots> = map XcursorImage.delay (XcursorImages.images x)"
    unfolding m by simp
  finally show "total_delay c = sum_list (map delay (images c))"
    using td by simp
qed

lemma get_cursor_None_iff:
  "wl_cursor_theme_get_cursor theme n = None \<longleftrightarrow> n \<notin> name ` set (cursors theme)"
  by (auto simp: wl_cursor_theme_get_cursor_def find_None_iff)

text \<open>The three ways a callback returns: the name is in the theme already; the
  constructor returned \<^verbatim>\<open>NULL\<close>; the constructor returned a cursor, now linked.\<close>

lemma load_callback_duplicate:
  "wl_cursor_theme_get_cursor theme (XcursorImages.name x) \<noteq> None \<Longrightarrow>
   load_callback env x theme h = Inr (theme, h)"
  by (auto simp: load_callback_def)

lemma load_callback_built:
  assumes "wl_cursor_theme_get_cursor theme (XcursorImages.name x) = None"
    and "wl_cursor_create_from_xcursor_images env x theme h = Inr (Some c, mid, h')"
  shows "load_callback env x theme h = Inr (mid\<lparr>cursors := cursors theme @ [c]\<rparr>, h')"
  using assms create_from_xcursor_images_Inr(6) [OF assms(2)]
  by (simp add: load_callback_def)

lemma load_callback_new:
  assumes "wl_cursor_theme_get_cursor theme (XcursorImages.name x) = None"
    and "load_callback env x theme h = Inr (theme', h')"
  obtains (null) "wl_cursor_create_from_xcursor_images env x theme h = Inr (None, theme, h')"
      and "theme' = theme"
  | (built) c mid where
      "wl_cursor_create_from_xcursor_images env x theme h = Inr (Some c, mid, h')"
      and "theme' = mid\<lparr>cursors := cursors theme @ [c]\<rparr>"
      and "name c = XcursorImages.name x"
proof (cases "wl_cursor_create_from_xcursor_images env x theme h")
  case (Inl e)
  with assms show ?thesis by (simp add: load_callback_def)
next
  case (Inr res)
  obtain oc mid hm where res: "res = (oc, mid, hm)" by (cases res)
  show ?thesis
  proof (cases oc)
    case None
    with Inr res have cr: "wl_cursor_create_from_xcursor_images env x theme h = Inr (None, mid, hm)"
      by simp
    then have "mid = theme" by (simp add: create_from_xcursor_images_None_iff)
    with cr assms have "wl_cursor_create_from_xcursor_images env x theme h = Inr (None, theme, h')"
      and "theme' = theme"
      by (simp_all add: load_callback_def)
    then show ?thesis by (rule null)
  next
    case (Some c)
    with Inr res have cr: "wl_cursor_create_from_xcursor_images env x theme h = Inr (Some c, mid, hm)"
      by simp
    note f = create_from_xcursor_images_Inr [OF cr]
    from cr assms f(6) have "hm = h'" and "theme' = mid\<lparr>cursors := cursors theme @ [c]\<rparr>"
      by (simp_all add: load_callback_def)
    with cr f(1) show ?thesis by (intro built [of c mid]) simp_all
  qed
qed

lemma load_callback_names:
  assumes "load_callback env x theme h = Inr (theme', h')"
  shows "\<exists>cs. cursors theme' = cursors theme @ cs
      \<and> (distinct (map name (cursors theme)) \<longrightarrow> distinct (map name (cursors theme')))
      \<and> name ` set cs \<subseteq> {XcursorImages.name x}"
proof (cases "wl_cursor_theme_get_cursor theme (XcursorImages.name x)")
  case (Some c)
  then have "load_callback env x theme h = Inr (theme, h)" by (simp add: load_callback_duplicate)
  with assms have "theme' = theme" by simp
  then show ?thesis by simp
next
  case None
  from None assms show ?thesis
  proof (cases rule: load_callback_new)
    case null
    then show ?thesis by simp
  next
    case (built c mid)
    from None have "XcursorImages.name x \<notin> name ` set (cursors theme)"
      by (simp add: get_cursor_None_iff)
    with built show ?thesis by (auto simp: image_iff)
  qed
qed

text \<open>A callback that returns leaves the theme either with a cursor of the reported
  name or as it was, after \<^verbatim>\<open>malloc\<close> refused the cursor or its array.\<close>

lemma load_callback_never_abandons:
  assumes "load_callback env x theme h = Inr (theme', h')"
  shows "XcursorImages.name x \<in> name ` set (cursors theme')
    \<or> theme' = theme \<and> (if malloc_ok env h then \<not> malloc_ok env (Suc h) else True)
        \<and> wl_cursor_create_from_xcursor_images env x theme h = Inr (None, theme, h')"
proof (cases "wl_cursor_theme_get_cursor theme (XcursorImages.name x)")
  case (Some c)
  then have "XcursorImages.name x \<in> name ` set (cursors theme)"
    using get_cursor_None_iff [of theme "XcursorImages.name x"] by simp
  moreover from Some have "load_callback env x theme h = Inr (theme, h)"
    by (simp add: load_callback_duplicate)
  ultimately show ?thesis using assms by simp
next
  case None
  from None assms show ?thesis
  proof (cases rule: load_callback_new)
    case null
    then show ?thesis by (simp add: create_from_xcursor_images_None_iff split: if_splits)
  next
    case (built c mid)
    then show ?thesis by (auto simp: image_iff)
  qed
qed

lemma load_cursors_append:
  "load_cursors env (xs @ ys) theme h =
     (case load_cursors env xs theme h of
        Inl e \<Rightarrow> Inl e
      | Inr (mid, hm) \<Rightarrow> load_cursors env ys mid hm)"
  by (induction xs arbitrary: theme h) (auto split: sum.splits)

lemma load_cursors_Cons_Inr:
  assumes "load_cursors env (x # xs) theme h = Inr (theme', h')"
  obtains mid hm where "load_callback env x theme h = Inr (mid, hm)"
    and "load_cursors env xs mid hm = Inr (theme', h')"
  using assms by (auto split: sum.splits)

lemma load_cursors_names:
  "load_cursors env xs theme h = Inr (theme', h') \<Longrightarrow>
   \<exists>cs. cursors theme' = cursors theme @ cs
      \<and> (distinct (map name (cursors theme)) \<longrightarrow> distinct (map name (cursors theme')))
      \<and> name ` set cs \<subseteq> XcursorImages.name ` set xs"
proof (induction xs arbitrary: theme h)
  case Nil
  then show ?case by simp
next
  case (Cons x xs)
  from Cons.prems obtain mid hm where
    one: "load_callback env x theme h = Inr (mid, hm)"
    and rest: "load_cursors env xs mid hm = Inr (theme', h')"
    by (rule load_cursors_Cons_Inr)
  from load_callback_names [OF one] obtain cs where
    cs: "cursors mid = cursors theme @ cs"
    "distinct (map name (cursors theme)) \<longrightarrow> distinct (map name (cursors mid))"
    "name ` set cs \<subseteq> {XcursorImages.name x}"
    by blast
  from Cons.IH [OF rest] obtain ds where
    ds: "cursors theme' = cursors mid @ ds"
    "distinct (map name (cursors mid)) \<longrightarrow> distinct (map name (cursors theme'))"
    "name ` set ds \<subseteq> XcursorImages.name ` set xs"
    by blast
  from cs ds have "cursors theme' = cursors theme @ (cs @ ds)"
    and "distinct (map name (cursors theme)) \<longrightarrow> distinct (map name (cursors theme'))"
    and "name ` set (cs @ ds) \<subseteq> XcursorImages.name ` set (x # xs)"
    by auto
  then show ?case by blast
qed

text \<open>A report whose name the theme lacks later on was refused its memory.\<close>

lemma load_cursors_lost_report:
  assumes load: "load_cursors env (xs @ x # ys) theme h = Inr (mid, hm)"
    and lacks: "XcursorImages.name x \<notin> name ` set (cursors mid)"
  shows "\<exists>t1 h1 h2.
      load_cursors env xs theme h = Inr (t1, h1)
    \<and> wl_cursor_create_from_xcursor_images env x t1 h1 = Inr (None, t1, h2)
    \<and> (if malloc_ok env h1 then \<not> malloc_ok env (Suc h1) else True)"
proof -
  from load obtain t1 h1 where
    b: "load_cursors env xs theme h = Inr (t1, h1)"
    and rest: "load_cursors env (x # ys) t1 h1 = Inr (mid, hm)"
    by (auto simp: load_cursors_append split: sum.splits)
  from rest obtain t2 h2 where
    one: "load_callback env x t1 h1 = Inr (t2, h2)"
    and a: "load_cursors env ys t2 h2 = Inr (mid, hm)"
    by (rule load_cursors_Cons_Inr)
  from load_cursors_names [OF a] lacks
  have "XcursorImages.name x \<notin> name ` set (cursors t2)" by auto
  with load_callback_never_abandons [OF one] b show ?thesis by blast
qed

text \<open>Once the theme has a cursor of a name, the reports of that name change neither
  the theme nor the heap: the load goes as it does without them.\<close>

lemma load_cursors_skip_duplicates:
  "XcursorImages.name r \<in> name ` set (cursors theme) \<Longrightarrow>
   load_cursors env xs theme h
     = load_cursors env (filter (\<lambda>x. XcursorImages.name x \<noteq> XcursorImages.name r) xs) theme h"
proof (induction xs arbitrary: theme h)
  case Nil
  show ?case by simp
next
  case (Cons x xs)
  show ?case
  proof (cases "XcursorImages.name x = XcursorImages.name r")
    case True
    with Cons.prems have "wl_cursor_theme_get_cursor theme (XcursorImages.name x) \<noteq> None"
      by (simp add: get_cursor_None_iff)
    then have "load_callback env x theme h = Inr (theme, h)" by (rule load_callback_duplicate)
    with True Cons.IH [OF Cons.prems] show ?thesis by simp
  next
    case False
    show ?thesis
    proof (cases "load_callback env x theme h")
      case (Inl e)
      with False show ?thesis by simp
    next
      case (Inr res)
      obtain mid hm where res: "res = (mid, hm)" by (cases res)
      from load_callback_names [OF Inr [unfolded res]] Cons.prems
      have "XcursorImages.name r \<in> name ` set (cursors mid)" by auto
      from Cons.IH [OF this] Inr res False show ?thesis by simp
    qed
  qed
qed

lemma filter_name_absent:
  "n \<notin> name ` set cs \<Longrightarrow> filter (\<lambda>c'. name c' = n) cs = []"
  by (induction cs) auto

text \<open>The report for which the constructor returns a cursor while the theme has none
  of its name: that cursor is the one of its name when the load ends, and the reports
  after it that bear the name are dropped.\<close>

lemma load_cursors_first_built:
  assumes load: "load_cursors env (before @ r # after) theme h = Inr (final, hf)"
    and b: "load_cursors env before theme h = Inr (mid, hm)"
    and absent: "wl_cursor_theme_get_cursor mid (XcursorImages.name r) = None"
    and built: "wl_cursor_create_from_xcursor_images env r mid hm = Inr (Some c, mid', hm')"
    and uniq: "distinct (map name (cursors theme))"
  shows "filter (\<lambda>c'. name c' = XcursorImages.name r) (cursors final) = [c]"
    and "distinct (map name (cursors final))"
    and "load_cursors env after (mid'\<lparr>cursors := cursors mid @ [c]\<rparr>) hm' = Inr (final, hf)"
    and "load_cursors env
           (before @ r # filter (\<lambda>x. XcursorImages.name x \<noteq> XcursorImages.name r) after)
           theme h
         = Inr (final, hf)"
proof -
  let ?n = "XcursorImages.name r"
  let ?mid2 = "mid'\<lparr>cursors := cursors mid @ [c]\<rparr>"
  have one: "load_callback env r mid hm = Inr (?mid2, hm')"
    using absent built by (rule load_callback_built)
  from load b one show a: "load_cursors env after ?mid2 hm' = Inr (final, hf)"
    by (simp add: load_cursors_append)
  from load_cursors_names [OF b] uniq have dm: "distinct (map name (cursors mid))"
    by blast
  from absent have nomid: "?n \<notin> name ` set (cursors mid)" by (simp add: get_cursor_None_iff)
  have nc: "name c = ?n" using built by (rule create_from_xcursor_images_Inr(1))
  from nomid nc dm have d2: "distinct (map name (cursors ?mid2))" by auto
  from load_cursors_names [OF a] d2 obtain as where
    as: "cursors final = cursors ?mid2 @ as" "distinct (map name (cursors final))"
    by blast
  show "distinct (map name (cursors final))" by (rule as(2))
  have fin: "cursors final = cursors mid @ c # as" using as(1) by simp
  with as(2) nc have "?n \<notin> name ` set as" by auto
  then have e1: "filter (\<lambda>c'. name c' = ?n) as = []"
    by (rule filter_name_absent)
  have e2: "filter (\<lambda>c'. name c' = ?n) (cursors mid) = []"
    using nomid by (rule filter_name_absent)
  show "filter (\<lambda>c'. name c' = ?n) (cursors final) = [c]"
    unfolding fin by (simp add: e1 e2 nc)
  have "?n \<in> name ` set (cursors ?mid2)" using nc by (auto simp: image_iff)
  from load_cursors_skip_duplicates [OF this, of env after hm'] a
  have "load_cursors env (filter (\<lambda>x. XcursorImages.name x \<noteq> ?n) after) ?mid2 hm'
      = Inr (final, hf)"
    by simp
  with b one show "load_cursors env (before @ r # filter (\<lambda>x. XcursorImages.name x \<noteq> ?n) after)
      theme h = Inr (final, hf)"
    by (simp add: load_cursors_append)
qed

lemma unat_sum_list_mod:
  "unat (sum_list (ws :: uint32 list)) = sum_list (map unat ws) mod 4294967296"
proof (induction ws)
  case Nil
  show ?case by simp
next
  case (Cons w ws)
  have "unat (w + sum_list ws) = (unat w + unat (sum_list ws)) mod 4294967296"
    by (simp add: unat_word_ariths)
  also have "\<dots> = (unat w + sum_list (map unat ws) mod 4294967296) mod 4294967296"
    by (simp only: Cons.IH)
  also have "\<dots> = (unat w + sum_list (map unat ws)) mod 4294967296"
    by (rule mod_add_right_eq)
  finally show ?case by simp
qed

lemma create_from_data_Inr:
  assumes "wl_cursor_create_from_data env m theme = Inr (c, theme')"
  shows "total_delay c = sum_list (map delay (images c))" and "image_count c = 1"
    and "cursors theme' = cursors theme"
  using assms
  by (auto simp: wl_cursor_create_from_data_def Let_def image_count_def
      split: prod.splits sum.splits)

lemma default_cursors_total_delay:
  "default_cursors env ms theme = Inr theme' \<Longrightarrow>
   \<forall>c \<in> set (cursors theme). total_delay c = sum_list (map delay (images c)) \<Longrightarrow>
   \<forall>c \<in> set (cursors theme'). total_delay c = sum_list (map delay (images c))"
proof (induction ms arbitrary: theme)
  case Nil
  then show ?case by simp
next
  case (Cons m ms)
  from Cons.prems(1) obtain c mid where
    cr: "wl_cursor_create_from_data env m theme = Inr (c, mid)"
    and rest: "default_cursors env ms (mid\<lparr>cursors := cursors mid @ [c]\<rparr>) = Inr theme'"
    by (auto split: sum.splits)
  note f = create_from_data_Inr [OF cr]
  from Cons.prems(2) f(1) f(3)
  have "\<forall>c \<in> set (cursors (mid\<lparr>cursors := cursors mid @ [c]\<rparr>)).
          total_delay c = sum_list (map delay (images c))"
    by auto
  from Cons.IH [OF rest this] show ?case .
qed

lemma load_callback_total_delay:
  assumes "load_callback env x theme h = Inr (theme', h')"
    and "\<forall>c \<in> set (cursors theme). total_delay c = sum_list (map delay (images c))"
  shows "\<forall>c \<in> set (cursors theme'). total_delay c = sum_list (map delay (images c))"
proof (cases "wl_cursor_theme_get_cursor theme (XcursorImages.name x)")
  case (Some c)
  then have "load_callback env x theme h = Inr (theme, h)" by (simp add: load_callback_duplicate)
  with assms show ?thesis by simp
next
  case None
  from None assms(1) show ?thesis
  proof (cases rule: load_callback_new)
    case null
    with assms(2) show ?thesis by simp
  next
    case (built c mid)
    from create_from_xcursor_images_Inr(3) [OF built(1)] assms(2) built(2) show ?thesis by auto
  qed
qed

lemma load_cursors_total_delay:
  "load_cursors env xs theme h = Inr (theme', h') \<Longrightarrow>
   \<forall>c \<in> set (cursors theme). total_delay c = sum_list (map delay (images c)) \<Longrightarrow>
   \<forall>c \<in> set (cursors theme'). total_delay c = sum_list (map delay (images c))"
proof (induction xs arbitrary: theme h)
  case Nil
  then show ?case by simp
next
  case (Cons x xs)
  from Cons.prems(1) obtain mid hm where
    one: "load_callback env x theme h = Inr (mid, hm)"
    and rest: "load_cursors env xs mid hm = Inr (theme', h')"
    by (rule load_cursors_Cons_Inr)
  from Cons.IH [OF rest load_callback_total_delay [OF one Cons.prems(2)]] show ?case .
qed

lemma wl_cursor_theme_load_Some:
  assumes "wl_cursor_theme_load env nm sz = Inr (Some final)"
  obtains p0 loaded hf where "shm_pool_create env (sz * sz * 4) = Some p0"
    and "load_cursors env (xcursor_theme env (case nm of None \<Rightarrow> ''default'' | Some n \<Rightarrow> n) sz)
           \<lparr>cursors = [], pool_t = p0,
            name_t = (case nm of None \<Rightarrow> ''default'' | Some n \<Rightarrow> n), size_t = sz\<rparr> 0
         = Inr (loaded, hf)"
    and "if cursors loaded = [] then load_default_theme env loaded = Inr final
         else final = loaded"
  using assms
  by (auto simp: wl_cursor_theme_load_def xcursor_load_theme_def cursor_count_def Let_def
      split: if_splits option.splits sum.splits)

text \<open>The pixels of a frame stay where the construction copied them: an allocation
  followed by a copy that succeeds leaves the allocated bytes as they were and puts the
  new ones behind them.\<close>

lemma memcpy_pool_Inr_iff:
  "memcpy_pool p off src sz = Inr p' \<longleftrightarrow>
     (\<exists>m. data p = Mapped m \<and> \<not> sint off < 0 \<and> \<not> sint sz < 0
        \<and> nat (sint off) + nat (sint sz) \<le> m \<and> nat (sint sz) \<le> length src
        \<and> p' = p\<lparr>fd := (fd p)\<lparr>bytes :=
                 (\<lambda>i. if nat (sint off) \<le> i \<and> i < nat (sint off) + nat (sint sz)
                      then src ! (i - nat (sint off)) else bytes (fd p) i)\<rparr>\<rparr>)"
  by (auto simp: memcpy_pool_def split: mapped_region.splits)

lemma alloc_copy_step:
  assumes inv: "pool_inv p"
    and alloc: "shm_pool_allocate env p sz = (off, p1)"
    and copy: "memcpy_pool p1 off src sz = Inr p2"
  shows "pool_inv p2"
    and "nat (sint off) = unat (used p)"
    and "unat (used p2) = unat (used p) + nat (sint sz)"
    and "\<forall>i < unat (used p). bytes (fd p2) i = bytes (fd p) i"
    and "\<forall>j < nat (sint sz). bytes (fd p2) (unat (used p) + j) = src ! j"
proof -
  from copy obtain m where
    m: "data p1 = Mapped m" and off0: "\<not> sint off < 0" and sz0: "\<not> sint sz < 0"
    and fit: "nat (sint off) + nat (sint sz) \<le> m"
    and p2: "p2 = p1\<lparr>fd := (fd p1)\<lparr>bytes :=
                 (\<lambda>i. if nat (sint off) \<le> i \<and> i < nat (sint off) + nat (sint sz)
                      then src ! (i - nat (sint off)) else bytes (fd p1) i)\<rparr>\<rparr>"
    unfolding memcpy_pool_Inr_iff by blast
  note o = sint_nonneg_nat [OF off0]
  note s = sint_nonneg_nat [OF sz0]
  have ne: "off \<noteq> - 1"
  proof
    assume "off = - 1"
    with o(2) show False by (simp add: unat_minus_1_32)
  qed
  have p1: "off = used p \<and> used p1 = used p + sz \<and> m \<le> len (fd p1)
      \<and> (\<forall>i < unat (used p). i < m \<longrightarrow> bytes (fd p1) i = bytes (fd p) i)"
  proof (cases "size_p p < used p + sz")
    case False
    from shm_pool_allocate_no_growth [OF False, where env = env] alloc
    have "off = used p" "p1 = p\<lparr>used := used p + sz\<rparr>" by simp_all
    with inv m show ?thesis by (simp add: pool_inv_def)
  next
    case True
    show ?thesis
    proof (cases "ftruncate env (fd p) (sint (2 * size_p p + sz))")
      case None
      from shm_pool_allocate_growth_fail [OF True None] alloc ne show ?thesis by simp
    next
      case (Some f)
      from shm_pool_allocate_growth_ok [OF True Some] alloc
      have off: "off = used p"
        and q: "p1 = p\<lparr>pool := pool p @ [Resize (sint (2 * size_p p + sz))], fd := f,
                data := mmap env (nat (sint (2 * size_p p + sz))),
                size_p := 2 * size_p p + sz, used := used p + sz\<rparr>"
        by simp_all
      from Some have f: "len f = nat (sint (2 * size_p p + sz))"
        "\<And>i. bytes f i = (if i < len (fd p) \<and> i < nat (sint (2 * size_p p + sz))
                          then bytes (fd p) i else 0)"
        by (auto simp: ftruncate_Some_iff)
      from m q have mm: "m = nat (sint (2 * size_p p + sz))"
        by (simp add: mmap_def split: if_splits)
      from inv have "unat (used p) \<le> len (fd p)" by (simp add: pool_inv_def)
      then have "\<forall>i < unat (used p). i < m \<longrightarrow> bytes (fd p1) i = bytes (fd p) i"
        by (simp add: q f(2) mm)
      with off q f(1) mm show ?thesis by simp
    qed
  qed
  then have off: "off = used p" and u1: "used p1 = used p + sz" and ml: "m \<le> len (fd p1)"
    and keep: "\<And>i. i < unat (used p) \<Longrightarrow> i < m \<Longrightarrow> bytes (fd p1) i = bytes (fd p) i"
    by blast+
  show no: "nat (sint off) = unat (used p)" using o(1) off by simp
  have "unat (used p) + unat sz < 4294967296" using o(2) s(2) off by simp
  then have "unat (used p + sz) = unat (used p) + unat sz" by (rule unat_add_small)
  then show u2: "unat (used p2) = unat (used p) + nat (sint sz)"
    by (simp add: p2 u1 s(1))
  from fit have le: "unat (used p) + nat (sint sz) \<le> m" by (simp add: no)
  show "pool_inv p2"
    using le ml m by (simp add: pool_inv_def u2) (simp add: p2)
  show "\<forall>i < unat (used p). bytes (fd p2) i = bytes (fd p) i"
    using keep le by (simp add: p2 no)
  show "\<forall>j < nat (sint sz). bytes (fd p2) (unat (used p) + j) = src ! j"
    by (simp add: p2 no)
qed

lemma extends_refl: "extends p p"
  by (simp add: extends_def)

lemma extends_trans: "extends p q \<Longrightarrow> extends q r \<Longrightarrow> extends p r"
  by (auto simp: extends_def)

lemma stored_extends: "stored p img src \<Longrightarrow> extends p p' \<Longrightarrow> stored p' img src"
  by (auto simp: stored_def extends_def)

lemma create_images_prefix:
  "create_images env xis c theme = Inr (c', theme') \<Longrightarrow>
   \<exists>new. images c' = images c @ new \<and> length new = length xis"
proof (induction xis arbitrary: c theme)
  case Nil
  then show ?case by simp
next
  case (Cons xi xis)
  let ?sz = "XcursorImage.width xi * XcursorImage.height xi * 4"
  obtain off p1 where alloc: "shm_pool_allocate env (pool_t theme) ?sz = (off, p1)"
    by (cases "shm_pool_allocate env (pool_t theme) ?sz")
  let ?img = "\<lparr>width = XcursorImage.width xi, height = XcursorImage.height xi,
                hotspot_x = xhot xi, hotspot_y = yhot xi,
                delay = XcursorImage.delay xi, buffer = None, offset = off\<rparr>"
  from Cons.prems alloc obtain p2 where
    rest: "create_images env xis
        (c\<lparr>images := images c @ [?img], total_delay := total_delay c + delay ?img\<rparr>)
        (theme\<lparr>pool_t := p2\<rparr>) = Inr (c', theme')"
    by (auto simp: Let_def split: sum.splits)
  from Cons.IH [OF rest] obtain new where
    "images c' = (images c @ [?img]) @ new" "length new = length xis"
    by auto
  then have "images c' = images c @ (?img # new)" "length (?img # new) = length (xi # xis)"
    by simp_all
  then show ?case by blast
qed

lemma create_images_stored:
  assumes "pool_inv (pool_t theme)"
    and "create_images env xis c theme = Inr (c', theme')"
  shows "pool_inv (pool_t theme') \<and> extends (pool_t theme) (pool_t theme')
    \<and> (\<forall>k < length xis.
          stored (pool_t theme') (images c' ! (length (images c) + k)) (pixels (xis ! k)))"
  using assms
proof (induction xis arbitrary: c theme)
  case Nil
  then show ?case by (simp add: extends_refl)
next
  case (Cons xi xis)
  let ?sz = "XcursorImage.width xi * XcursorImage.height xi * 4"
  obtain off p1 where alloc: "shm_pool_allocate env (pool_t theme) ?sz = (off, p1)"
    by (cases "shm_pool_allocate env (pool_t theme) ?sz")
  let ?img = "\<lparr>width = XcursorImage.width xi, height = XcursorImage.height xi,
                hotspot_x = xhot xi, hotspot_y = yhot xi,
                delay = XcursorImage.delay xi, buffer = None, offset = off\<rparr>"
  let ?c1 = "c\<lparr>images := images c @ [?img], total_delay := total_delay c + delay ?img\<rparr>"
  from Cons.prems(2) alloc obtain p2 where
    copy: "memcpy_pool p1 off (pixels xi) ?sz = Inr p2"
    and rest: "create_images env xis ?c1 (theme\<lparr>pool_t := p2\<rparr>) = Inr (c', theme')"
    by (auto simp: Let_def split: sum.splits)
  note st = alloc_copy_step [OF Cons.prems(1) alloc copy]
  have ext1: "extends (pool_t theme) p2"
    using st(3) st(4) by (simp add: extends_def)
  have here: "stored p2 ?img (pixels xi)"
    using st(2) st(3) st(5) by (simp add: stored_def)
  from st(1) have "pool_inv (pool_t (theme\<lparr>pool_t := p2\<rparr>))" by simp
  from Cons.IH [OF this rest]
  have inv': "pool_inv (pool_t theme')" and ext2: "extends p2 (pool_t theme')"
    and ih: "\<And>k. k < length xis \<Longrightarrow>
          stored (pool_t theme') (images c' ! (length (images ?c1) + k)) (pixels (xis ! k))"
    by simp_all
  from create_images_prefix [OF rest] obtain new where
    "images c' = images ?c1 @ new"
    by blast
  then have pre: "images c' ! length (images c) = ?img"
    by (simp add: nth_append)
  have "stored (pool_t theme') (images c' ! (length (images c) + k)) (pixels ((xi # xis) ! k))"
    if k: "k < length (xi # xis)" for k
  proof (cases k)
    case 0
    with stored_extends [OF here ext2] pre show ?thesis by simp
  next
    case (Suc k')
    with k ih [of k'] show ?thesis by simp
  qed
  with inv' extends_trans [OF ext1 ext2] show ?case by blast
qed

lemma create_from_xcursor_images_stored:
  assumes "pool_inv (pool_t theme)"
    and "wl_cursor_create_from_xcursor_images env x theme h = Inr (Some c, theme', h')"
  shows "pool_inv (pool_t theme')" and "extends (pool_t theme) (pool_t theme')"
    and "\<forall>k < length (XcursorImages.images x).
           stored (pool_t theme') (images c ! k) (pixels (XcursorImages.images x ! k))"
proof -
  from assms(2) have "create_images env (XcursorImages.images x)
        \<lparr>name = XcursorImages.name x, images = [], total_delay = 0\<rparr> theme = Inr (c, theme')"
    by (simp add: create_from_xcursor_images_Some_iff)
  from create_images_stored [OF assms(1) this]
  show "pool_inv (pool_t theme')" and "extends (pool_t theme) (pool_t theme')"
    and "\<forall>k < length (XcursorImages.images x).
           stored (pool_t theme') (images c ! k) (pixels (XcursorImages.images x ! k))"
    by simp_all
qed

lemma load_callback_extends:
  assumes "pool_inv (pool_t theme)" and "load_callback env x theme h = Inr (theme', h')"
  shows "pool_inv (pool_t theme') \<and> extends (pool_t theme) (pool_t theme')"
proof (cases "wl_cursor_theme_get_cursor theme (XcursorImages.name x)")
  case (Some c)
  then have "load_callback env x theme h = Inr (theme, h)" by (simp add: load_callback_duplicate)
  with assms show ?thesis by (simp add: extends_refl)
next
  case None
  from None assms(2) show ?thesis
  proof (cases rule: load_callback_new)
    case null
    with assms(1) show ?thesis by (simp add: extends_refl)
  next
    case (built c mid)
    from create_from_xcursor_images_stored(1,2) [OF assms(1) built(1)] built(2)
    show ?thesis by simp
  qed
qed

lemma load_cursors_extends:
  "pool_inv (pool_t theme) \<Longrightarrow> load_cursors env xs theme h = Inr (theme', h') \<Longrightarrow>
   pool_inv (pool_t theme') \<and> extends (pool_t theme) (pool_t theme')"
proof (induction xs arbitrary: theme h)
  case Nil
  then show ?case by (simp add: extends_refl)
next
  case (Cons x xs)
  from Cons.prems(2) obtain mid hm where
    one: "load_callback env x theme h = Inr (mid, hm)"
    and rest: "load_cursors env xs mid hm = Inr (theme', h')"
    by (rule load_cursors_Cons_Inr)
  from load_callback_extends [OF Cons.prems(1) one]
  have m: "pool_inv (pool_t mid)" "extends (pool_t theme) (pool_t mid)" by simp_all
  from Cons.IH [OF m(1) rest] m(2) show ?case by (auto intro: extends_trans)
qed

lemma shm_pool_create_inv: "shm_pool_create env sz = Some p \<Longrightarrow> pool_inv p"
  by (auto simp: shm_pool_create_def os_create_anonymous_file_def mmap_def pool_inv_def
      split: option.splits mapped_region.splits if_splits)

lemma created_cursor_stored:
  assumes inv: "pool_inv (pool_t mid)"
    and cr: "wl_cursor_create_from_xcursor_images env r mid h = Inr (Some c, mid', h')"
    and a: "load_cursors env after (mid'\<lparr>cursors := cs\<rparr>) h' = Inr (final, hf)"
    and k: "k < length (XcursorImages.images r)"
  shows "stored (pool_t final) (images c ! k) (pixels (XcursorImages.images r ! k))"
proof -
  from create_from_xcursor_images_stored [OF inv cr] k
  have im': "pool_inv (pool_t mid')"
    and st: "stored (pool_t mid') (images c ! k) (pixels (XcursorImages.images r ! k))"
    by simp_all
  from im' have "pool_inv (pool_t (mid'\<lparr>cursors := cs\<rparr>))" by simp
  from load_cursors_extends [OF this a]
  have "extends (pool_t mid') (pool_t final)" by simp
  with st show ?thesis by (rule stored_extends)
qed

text \<open>Every cursor of a loaded theme, built from the loader's reports or from the
  built-in table, has the 32-bit sum of its delays as \<open>total_delay\<close>; so
  \<^verbatim>\<open>wl_cursor_frame\<close> stays inside its frame array.\<close>

lemma theme_load_cursor_sum:
  assumes "wl_cursor_theme_load env nm sz = Inr (Some theme)"
    and "c \<in> set (cursors theme)"
  shows "total_delay c = sum_list (map delay (images c))"
proof -
  from assms(1) obtain p0 loaded hf where
    ld: "load_cursors env (xcursor_theme env (case nm of None \<Rightarrow> ''default'' | Some n \<Rightarrow> n) sz)
           \<lparr>cursors = [], pool_t = p0,
            name_t = (case nm of None \<Rightarrow> ''default'' | Some n \<Rightarrow> n), size_t = sz\<rparr> 0
         = Inr (loaded, hf)"
    and fin: "if cursors loaded = [] then load_default_theme env loaded = Inr theme
         else theme = loaded"
    by (rule wl_cursor_theme_load_Some)
  have l: "\<forall>c \<in> set (cursors loaded). total_delay c = sum_list (map delay (images c))"
    by (rule load_cursors_total_delay [OF ld]) simp
  have "\<forall>c \<in> set (cursors theme). total_delay c = sum_list (map delay (images c))"
  proof (cases "cursors loaded = []")
    case True
    with fin have "default_cursors env (cursor_metadata env)
        (loaded\<lparr>name_t := ''default'', cursors := []\<rparr>) = Inr theme"
      by (simp add: load_default_theme_def)
    from default_cursors_total_delay [OF this] show ?thesis by simp
  next
    case False
    with fin l show ?thesis by simp
  qed
  with assms(2) show ?thesis by simp
qed

lemma loaded_cursor_frame_in_bounds:
  assumes "wl_cursor_theme_load env nm sz = Inr (Some theme)"
    and "c \<in> set (cursors theme)"
    and "1 \<le> image_count c"
    and "1 < image_count c \<longrightarrow> 0 < total_delay c"
  shows "\<exists>i. wl_cursor_frame c time = Inr i \<and> i < image_count c"
  using theme_load_cursor_sum [OF assms(1) assms(2)] assms(3) assms(4)
  by (rule frame_in_bounds_of_sum)

text \<open>
  Claim C5, as stated: every cursor built during a theme load with more than one frame
  has \<open>total_delay > 0\<close>. The constructor only adds up the delays the loader supplies:
  a cursor of two frames with delay 0 is built with \<open>total_delay = 0\<close>, and
  \<^verbatim>\<open>wl_cursor_frame\<close> then divides by zero.
\<close>

theorem theme_load_zero_total_delay:
  "wl_cursor_theme_load
     (env_theme [\<lparr>XcursorImages.name = ''wait'', images = [xframe 1 1 0, xframe 1 1 0]\<rparr>])
     None 1
   = Inr (Some (the (projr (wl_cursor_theme_load
       (env_theme [\<lparr>XcursorImages.name = ''wait'', images = [xframe 1 1 0, xframe 1 1 0]\<rparr>])
       None 1))))
   \<and> map name (cursors (the (projr (wl_cursor_theme_load
       (env_theme [\<lparr>XcursorImages.name = ''wait'', images = [xframe 1 1 0, xframe 1 1 0]\<rparr>])
       None 1)))) = [''wait'']
   \<and> image_count (hd (cursors (the (projr (wl_cursor_theme_load
       (env_theme [\<lparr>XcursorImages.name = ''wait'', images = [xframe 1 1 0, xframe 1 1 0]\<rparr>])
       None 1))))) = 2
   \<and> total_delay (hd (cursors (the (projr (wl_cursor_theme_load
       (env_theme [\<lparr>XcursorImages.name = ''wait'', images = [xframe 1 1 0, xframe 1 1 0]\<rparr>])
       None 1))))) = 0
   \<and> \<not> 0 < total_delay (hd (cursors (the (projr (wl_cursor_theme_load
       (env_theme [\<lparr>XcursorImages.name = ''wait'', images = [xframe 1 1 0, xframe 1 1 0]\<rparr>])
       None 1)))))
   \<and> wl_cursor_frame (hd (cursors (the (projr (wl_cursor_theme_load
       (env_theme [\<lparr>XcursorImages.name = ''wait'', images = [xframe 1 1 0, xframe 1 1 0]\<rparr>])
       None 1))))) 0 = Inl Division_by_zero"
  by (simp add: load_defs image_count_def wl_cursor_frame_def)

text \<open>
  Claim C5, amended: for every cursor of a loaded theme, \<open>total_delay\<close> is the sum of
  the delays of its frames modulo \<open>2\<^sup>3\<^sup>2\<close>; it is greater than 0 exactly when that sum
  is not a multiple of \<open>2\<^sup>3\<^sup>2\<close>.
\<close>

theorem theme_load_total_delay:
  assumes "wl_cursor_theme_load env nm sz = Inr (Some theme)"
    and "c \<in> set (cursors theme)"
  shows "total_delay c = sum_list (map delay (images c))
    \<and> unat (total_delay c) = sum_list (map (\<lambda>i. unat (delay i)) (images c)) mod 4294967296
    \<and> (0 < total_delay c
         \<longleftrightarrow> sum_list (map (\<lambda>i. unat (delay i)) (images c)) mod 4294967296 \<noteq> 0)"
proof -
  have sum: "total_delay c = sum_list (map delay (images c))"
    using assms by (rule theme_load_cursor_sum)
  have u: "unat (total_delay c) = sum_list (map (\<lambda>i. unat (delay i)) (images c)) mod 4294967296"
    unfolding sum unat_sum_list_mod by (simp add: comp_def)
  have "0 < total_delay c \<longleftrightarrow> 0 < unat (total_delay c)"
    by (simp add: word_less_nat_alt)
  with sum u show ?thesis by simp
qed

theorem theme_load_total_delay_witness:
  "total_delay (hd (cursors (the (projr (wl_cursor_theme_load
      (env_theme [\<lparr>XcursorImages.name = ''wait'', images = [xframe 1 1 100, xframe 1 1 200]\<rparr>])
      None 1))))) = 300"
proof -
  let ?env = "env_theme [\<lparr>XcursorImages.name = ''wait'',
                          images = [xframe 1 1 100, xframe 1 1 200]\<rparr>]"
  let ?theme = "the (projr (wl_cursor_theme_load ?env None 1))"
  have load: "wl_cursor_theme_load ?env None 1 = Inr (Some ?theme)"
    by (simp add: load_defs)
  have c: "hd (cursors ?theme) \<in> set (cursors ?theme)"
    by (simp add: load_defs)
  have "map delay (images (hd (cursors ?theme))) = [100, 200]"
    by (simp add: load_defs)
  with theme_load_total_delay [OF load c] show ?thesis by simp
qed

text \<open>What becomes of a report that is granted its memory while the theme has no cursor
  of its name.\<close>

lemma theme_load_built_report:
  assumes load: "wl_cursor_theme_load env nm sz = Inr (Some final)"
    and reports: "xcursor_theme env (case nm of None \<Rightarrow> ''default'' | Some n \<Rightarrow> n) sz
                    = before @ r # after"
    and pool: "shm_pool_create env (sz * sz * 4) = Some p0"
    and run: "load_cursors env before
                \<lparr>cursors = [], pool_t = p0,
                 name_t = (case nm of None \<Rightarrow> ''default'' | Some n \<Rightarrow> n), size_t = sz\<rparr> 0
              = Inr (mid, h)"
    and first: "wl_cursor_theme_get_cursor mid (XcursorImages.name r) = None"
    and granted: "malloc_ok env h" "malloc_ok env (Suc h)"
  shows "\<exists>c mid'.
      wl_cursor_create_from_xcursor_images env r mid h = Inr (Some c, mid', Suc (Suc h))
    \<and> filter (\<lambda>c'. name c' = XcursorImages.name r) (cursors final) = [c]
    \<and> name c = XcursorImages.name r
    \<and> map (\<lambda>i. (width i, height i, hotspot_x i, hotspot_y i, delay i)) (images c)
        = map (\<lambda>x. (XcursorImage.width x, XcursorImage.height x, xhot x, yhot x,
                     XcursorImage.delay x)) (XcursorImages.images r)
    \<and> (\<forall>k < length (XcursorImages.images r).
          stored (pool_t final) (images c ! k) (pixels (XcursorImages.images r ! k)))
    \<and> (\<exists>hf. load_cursors env
         (before @ r # filter (\<lambda>x. XcursorImages.name x \<noteq> XcursorImages.name r) after)
         \<lparr>cursors = [], pool_t = p0,
          name_t = (case nm of None \<Rightarrow> ''default'' | Some n \<Rightarrow> n), size_t = sz\<rparr> 0
        = Inr (final, hf))"
proof -
  let ?nm = "case nm of None \<Rightarrow> ''default'' | Some n \<Rightarrow> n"
  let ?t0 = "\<lparr>cursors = [], pool_t = p0, name_t = ?nm, size_t = sz\<rparr>"
  from load pool obtain loaded hf where
    ld: "load_cursors env (xcursor_theme env ?nm sz) ?t0 0 = Inr (loaded, hf)"
    and fin: "if cursors loaded = [] then load_default_theme env loaded = Inr final
         else final = loaded"
    by (auto elim: wl_cursor_theme_load_Some)
  note ld' = ld [unfolded reports]
  from ld' run have "load_cursors env (r # after) mid h = Inr (loaded, hf)"
    by (simp add: load_cursors_append)
  then obtain mid2 h2 where one: "load_callback env r mid h = Inr (mid2, h2)"
    by (rule load_cursors_Cons_Inr)
  from first one obtain c mid' where
    cr: "wl_cursor_create_from_xcursor_images env r mid h = Inr (Some c, mid', h2)"
  proof (cases rule: load_callback_new)
    case null
    with granted show ?thesis by (simp add: create_from_xcursor_images_None_iff)
  next
    case (built c mid')
    then show ?thesis by (intro that)
  qed
  then have h2: "h2 = Suc (Suc h)" by (simp add: create_from_xcursor_images_Some_iff)
  have uniq: "distinct (map name (cursors ?t0))" by simp
  note fb = load_cursors_first_built [OF ld' run first cr uniq]
  from fb(1) have "cursors loaded \<noteq> []" by auto
  with fin have final: "final = loaded" by simp
  note f = create_from_xcursor_images_Inr [OF cr]
  have "map (\<lambda>i. (width i, height i, hotspot_x i, hotspot_y i, delay i)) (images c)
      = map (\<lambda>t. (fst t, fst (snd t), fst (snd (snd t)), fst (snd (snd (snd t))),
                   fst (snd (snd (snd (snd t))))))
          (map (\<lambda>i. (width i, height i, hotspot_x i, hotspot_y i, delay i, buffer i)) (images c))"
    by simp
  also have "\<dots> = map (\<lambda>x. (XcursorImage.width x, XcursorImage.height x, xhot x, yhot x,
                     XcursorImage.delay x)) (XcursorImages.images r)"
    unfolding f(5) by simp
  finally have meta: "map (\<lambda>i. (width i, height i, hotspot_x i, hotspot_y i, delay i)) (images c)
        = map (\<lambda>x. (XcursorImage.width x, XcursorImage.height x, xhot x, yhot x,
                     XcursorImage.delay x)) (XcursorImages.images r)" .
  have "pool_inv (pool_t ?t0)" using shm_pool_create_inv [OF pool] by simp
  from load_cursors_extends [OF this run] have "pool_inv (pool_t mid)" by simp
  from created_cursor_stored [OF this cr fb(3)]
  have pix: "\<forall>k < length (XcursorImages.images r).
          stored (pool_t loaded) (images c ! k) (pixels (XcursorImages.images r ! k))"
    by simp
  from cr [unfolded h2] fb(1) fb(4) f(1) meta pix show ?thesis
    unfolding final by blast
qed




text \<open>When \<^verbatim>\<open>malloc\<close> refuses nothing, the cursor of a name in the loaded theme is built
  from the first report of the name, as the claim has it.\<close>

lemma theme_load_first_report_granted:
  assumes load: "wl_cursor_theme_load env nm sz = Inr (Some final)"
    and reports: "xcursor_theme env (case nm of None \<Rightarrow> ''default'' | Some n \<Rightarrow> n) sz
                    = before @ r # after"
    and first: "\<forall>x \<in> set before. XcursorImages.name x \<noteq> XcursorImages.name r"
    and granted: "\<forall>k. malloc_ok env k"
  shows "\<exists>c. filter (\<lambda>c'. name c' = XcursorImages.name r) (cursors final) = [c]
    \<and> name c = XcursorImages.name r
    \<and> map (\<lambda>i. (width i, height i, hotspot_x i, hotspot_y i, delay i)) (images c)
        = map (\<lambda>x. (XcursorImage.width x, XcursorImage.height x, xhot x, yhot x,
                     XcursorImage.delay x)) (XcursorImages.images r)
    \<and> (\<forall>k < length (XcursorImages.images r).
          stored (pool_t final) (images c ! k) (pixels (XcursorImages.images r ! k)))"
proof -
  let ?nm = "case nm of None \<Rightarrow> ''default'' | Some n \<Rightarrow> n"
  from load obtain p0 loaded hf where
    p0: "shm_pool_create env (sz * sz * 4) = Some p0"
    and ld: "load_cursors env (xcursor_theme env ?nm sz)
           \<lparr>cursors = [], pool_t = p0, name_t = ?nm, size_t = sz\<rparr> 0 = Inr (loaded, hf)"
    by (rule wl_cursor_theme_load_Some)
  let ?t0 = "\<lparr>cursors = [], pool_t = p0, name_t = ?nm, size_t = sz\<rparr>"
  from ld [unfolded reports] obtain mid h where
    b: "load_cursors env before ?t0 0 = Inr (mid, h)"
    by (auto simp: load_cursors_append split: sum.splits)
  from load_cursors_names [OF b] obtain bs where
    "cursors mid = cursors ?t0 @ bs" "name ` set bs \<subseteq> XcursorImages.name ` set before"
    by blast
  with first have "XcursorImages.name r \<notin> name ` set (cursors mid)" by auto
  then have absent: "wl_cursor_theme_get_cursor mid (XcursorImages.name r) = None"
    by (simp add: get_cursor_None_iff)
  from granted have g: "malloc_ok env h" "malloc_ok env (Suc h)" by simp_all
  from theme_load_built_report [OF load reports p0 b absent g]
  show ?thesis by blast
qed

text \<open>An allocation that fails is followed by a copy to the offset -1, outside the
  mapping: the source does not test what \<^verbatim>\<open>shm_pool_allocate\<close> returns. The one way
  a callback returns without a cursor of the reported name in the theme is a refusal of
  \<^verbatim>\<open>malloc\<close>, before anything is asked of the pool (lemma
  \<open>load_callback_never_abandons\<close> above): no cursor is abandoned for a failure of the
  pool.\<close>

lemma memcpy_pool_failed_offset:
  "memcpy_pool p (- 1) src sz = Inl Out_of_bounds"
  by (simp add: memcpy_pool_def split: mapped_region.splits)

lemma create_images_allocation_failure:
  "fst (shm_pool_allocate env (pool_t theme) (XcursorImage.width xi * XcursorImage.height xi * 4))
     = - 1 \<Longrightarrow>
   create_images env (xi # xis) c theme = Inl Out_of_bounds"
  by (cases "shm_pool_allocate env (pool_t theme)
              (XcursorImage.width xi * XcursorImage.height xi * 4)")
     (simp add: memcpy_pool_failed_offset)

text \<open>
  Claim C4. When the pool allocation for a frame fails, the cursor should be abandoned,
  the theme left without it, and the load should go on with the next cursor. With a
  theme size of 1 (a pool of 4 bytes), a file size limit of 4 bytes and a cursor
  \<open>big\<close> of one 2 by 2 frame, the allocation of its 16 bytes returns -1; the source
  goes on to copy the pixels to \<^verbatim>\<open>data - 1\<close>, so the callback does not return the
  theme and the load does not reach the cursor \<open>small\<close> that follows, which it loads
  when \<open>big\<close> is not reported.
\<close>

theorem theme_load_allocation_failure:
  "fst (shm_pool_allocate (env_limit 4) (fresh_pool 4) (2 * 2 * 4)) = - 1
   \<and> load_callback (env_limit 4) \<lparr>XcursorImages.name = ''big'', images = [xframe 2 2 0]\<rparr>
        \<lparr>cursors = [], pool_t = fresh_pool 4, name_t = ''default'', size_t = 1\<rparr> 0
       = Inl Out_of_bounds
   \<and> wl_cursor_theme_load
       ((env_limit 4)\<lparr>xcursor_theme :=
           (\<lambda>nm sz. [\<lparr>XcursorImages.name = ''big'', images = [xframe 2 2 0]\<rparr>,
                      \<lparr>XcursorImages.name = ''small'', images = [xframe 1 1 0]\<rparr>])\<rparr>)
       None 1 = Inl Out_of_bounds
   \<and> map name (cursors (the (projr (wl_cursor_theme_load
       ((env_limit 4)\<lparr>xcursor_theme :=
           (\<lambda>nm sz. [\<lparr>XcursorImages.name = ''small'', images = [xframe 1 1 0]\<rparr>])\<rparr>)
       None 1)))) = [''small'']"
  by (simp add: load_defs env_limit_def fresh_pool_def)

end
